theory Spec2Isabelle
  imports Main "HOL-Library.AList" "HOL-Library.FSet"
begin

section \<open>Strings and configuration\<close>

text \<open>
  A Python \<open>str\<close> is modelled as an Isabelle \<open>string\<close> holding the UTF-8 bytes of the
  text. Every character the program inspects one by one (\<open>/\<close>, \<open>:\<close>, \<open>_\<close>, ...) is
  ASCII, and an ASCII byte never occurs inside the UTF-8 encoding of another character,
  so deleting or replacing such characters and searching for a substring mean the same on
  the bytes as on the code points. Characters beyond ASCII are written byte by byte.
\<close>

text \<open>The 25 questions of \<open>QUESTIONNAIRE\<close>, in the order of the source.\<close>

definition QUESTIONNAIRE :: "string list" where
  "QUESTIONNAIRE =
    [[CHR 0xE5, CHR 0xAE, CHR 0xBF, CHR 0xE8, CHR 0x88, CHR 0x8D, CHR 0xE6, CHR 0x98, CHR 0xAF,
      CHR 0xE4, CHR 0xB8, CHR 0x8A, CHR 0xE5, CHR 0xBA, CHR 0x8A, CHR 0xE4, CHR 0xB8, CHR 0x8B,
      CHR 0xE6, CHR 0xA1, CHR 0x8C, CHR 0xE5, CHR 0x90, CHR 0x97, CHR 0xEF, CHR 0xBC, CHR 0x9F],
     [CHR 0xE6, CHR 0x95, CHR 0x99, CHR 0xE5, CHR 0xAE, CHR 0xA4, CHR 0xE5, CHR 0x92, CHR 0x8C,
      CHR 0xE5, CHR 0xAE, CHR 0xBF, CHR 0xE8, CHR 0x88, CHR 0x8D, CHR 0xE6, CHR 0x9C, CHR 0x89,
      CHR 0xE6, CHR 0xB2, CHR 0xA1, CHR 0xE6, CHR 0x9C, CHR 0x89, CHR 0xE7, CHR 0xA9, CHR 0xBA,
      CHR 0xE8, CHR 0xB0, CHR 0x83, CHR 0xEF, CHR 0xBC, CHR 0x9F],
     [CHR 0xE6, CHR 0x9C, CHR 0x89, CHR 0xE7, CHR 0x8B, CHR 0xAC, CHR 0xE7, CHR 0xAB, CHR 0x8B,
      CHR 0xE5, CHR 0x8D, CHR 0xAB, CHR 0xE6, CHR 0xB5, CHR 0xB4, CHR 0xE5, CHR 0x90, CHR 0x97,
      CHR 0xEF, CHR 0xBC, CHR 0x9F, CHR 0xE6, CHR 0xB2, CHR 0xA1, CHR 0xE6, CHR 0x9C, CHR 0x89,
      CHR 0xE7, CHR 0x8B, CHR 0xAC, CHR 0xE7, CHR 0xAB, CHR 0x8B, CHR 0xE6, CHR 0xB5, CHR 0xB4,
      CHR 0xE5, CHR 0xAE, CHR 0xA4, CHR 0xE7, CHR 0x9A, CHR 0x84, CHR 0xE8, CHR 0xAF, CHR 0x9D,
      CHR 0xEF, CHR 0xBC, CHR 0x8C, CHR 0xE6, CHR 0xBE, CHR 0xA1, CHR 0xE5, CHR 0xA0, CHR 0x82,
      CHR 0xE7, CHR 0xA6, CHR 0xBB, CHR 0xE5, CHR 0xAE, CHR 0xBF, CHR 0xE8, CHR 0x88, CHR 0x8D,
      CHR 0xE5, CHR 0xA4, CHR 0x9A, CHR 0xE8, CHR 0xBF, CHR 0x9C, CHR 0xEF, CHR 0xBC, CHR 0x9F],
     [CHR 0xE6, CHR 0x9C, CHR 0x89, CHR 0xE6, CHR 0x97, CHR 0xA9, CHR 0xE8, CHR 0x87, CHR 0xAA,
      CHR 0xE4, CHR 0xB9, CHR 0xA0, CHR 0xE3, CHR 0x80, CHR 0x81, CHR 0xE6, CHR 0x99, CHR 0x9A,
      CHR 0xE8, CHR 0x87, CHR 0xAA, CHR 0xE4, CHR 0xB9, CHR 0xA0, CHR 0xE5, CHR 0x90, CHR 0x97,
      CHR 0xEF, CHR 0xBC, CHR 0x9F],
     [CHR 0xE6, CHR 0x9C, CHR 0x89, CHR 0xE6, CHR 0x99, CHR 0xA8, CHR 0xE8, CHR 0xB7, CHR 0x91,
      CHR 0xE5, CHR 0x90, CHR 0x97, CHR 0xEF, CHR 0xBC, CHR 0x9F],
     [CHR 0xE6, CHR 0xAF, CHR 0x8F, CHR 0xE5, CHR 0xAD, CHR 0xA6, CHR 0xE6, CHR 0x9C, CHR 0x9F,
      CHR 0xE8, CHR 0xB7, CHR 0x91, CHR 0xE6, CHR 0xAD, CHR 0xA5, CHR 0xE6, CHR 0x89, CHR 0x93,
      CHR 0xE5, CHR 0x8D, CHR 0xA1, CHR 0xE7, CHR 0x9A, CHR 0x84, CHR 0xE8, CHR 0xA6, CHR 0x81,
      CHR 0xE6, CHR 0xB1, CHR 0x82, CHR 0xE6, CHR 0x98, CHR 0xAF, CHR 0xE5, CHR 0xA4, CHR 0x9A,
      CHR 0xE5, CHR 0xB0, CHR 0x91, CHR 0xE5, CHR 0x85, CHR 0xAC, CHR 0xE9, CHR 0x87, CHR 0x8C,
      CHR 0xEF, CHR 0xBC, CHR 0x8C, CHR 0xE5, CHR 0x8F, CHR 0xAF, CHR 0xE4, CHR 0xBB, CHR 0xA5,
      CHR 0xE9, CHR 0xAA, CHR 0x91, CHR 0xE8, CHR 0xBD, CHR 0xA6, CHR 0xE5, CHR 0x90, CHR 0x97,
      CHR 0xEF, CHR 0xBC, CHR 0x9F],
     [CHR 0xE5, CHR 0xAF, CHR 0x92, CHR 0xE6, CHR 0x9A, CHR 0x91, CHR 0xE5, CHR 0x81, CHR 0x87,
      CHR 0xE6, CHR 0x94, CHR 0xBE, CHR 0xE5, CHR 0xA4, CHR 0x9A, CHR 0xE4, CHR 0xB9, CHR 0x85,
      CHR 0xEF, CHR 0xBC, CHR 0x8C, CHR 0xE6, CHR 0xAF, CHR 0x8F, CHR 0xE5, CHR 0xB9, CHR 0xB4,
      CHR 0xE5, CHR 0xB0, CHR 0x8F, CHR 0xE5, CHR 0xAD, CHR 0xA6, CHR 0xE6, CHR 0x9C, CHR 0x9F,
      CHR 0xE6, CHR 0x9C, CHR 0x89, CHR 0xE5, CHR 0xA4, CHR 0x9A, CHR 0xE9, CHR 0x95, CHR 0xBF,
      CHR 0xEF, CHR 0xBC, CHR 0x9F],
     [CHR 0xE5, CHR 0xAD, CHR 0xA6, CHR 0xE6, CHR 0xA0, CHR 0xA1, CHR 0xE5, CHR 0x85, CHR 0x81,
      CHR 0xE8, CHR 0xAE, CHR 0xB8, CHR 0xE7, CHR 0x82, CHR 0xB9, CHR 0xE5, CHR 0xA4, CHR 0x96,
      CHR 0xE5, CHR 0x8D, CHR 0x96, CHR 0xE5, CHR 0x90, CHR 0x97, CHR 0xEF, CHR 0xBC, CHR 0x8C,
      CHR 0xE5, CHR 0x8F, CHR 0x96, CHR 0xE5, CHR 0xA4, CHR 0x96, CHR 0xE5, CHR 0x8D, CHR 0x96,
      CHR 0xE7, CHR 0x9A, CHR 0x84, CHR 0xE5, CHR 0x9C, CHR 0xB0, CHR 0xE6, CHR 0x96, CHR 0xB9,
      CHR 0xE7, CHR 0xA6, CHR 0xBB, CHR 0xE5, CHR 0xAE, CHR 0xBF, CHR 0xE8, CHR 0x88, CHR 0x8D,
      CHR 0xE6, CHR 0xA5, CHR 0xBC, CHR 0xE5, CHR 0xA4, CHR 0x9A, CHR 0xE8, CHR 0xBF, CHR 0x9C,
      CHR 0xEF, CHR 0xBC, CHR 0x9F],
     [CHR 0xE5, CHR 0xAD, CHR 0xA6, CHR 0xE6, CHR 0xA0, CHR 0xA1, CHR 0xE4, CHR 0xBA, CHR 0xA4,
      CHR 0xE9, CHR 0x80, CHR 0x9A, CHR 0xE4, CHR 0xBE, CHR 0xBF, CHR 0xE5, CHR 0x88, CHR 0xA9,
      CHR 0xE5, CHR 0x90, CHR 0x97, CHR 0xEF, CHR 0xBC, CHR 0x8C, CHR 0xE6, CHR 0x9C, CHR 0x89,
      CHR 0xE5, CHR 0x9C, CHR 0xB0, CHR 0xE9, CHR 0x93, CHR 0x81, CHR 0xE5, CHR 0x90, CHR 0x97,
      CHR 0xEF, CHR 0xBC, CHR 0x8C, CHR 0xE5, CHR 0x9C, CHR 0xA8, CHR 0xE5, CHR 0xB8, CHR 0x82,
      CHR 0xE5, CHR 0x8C, CHR 0xBA, CHR 0xE5, CHR 0x90, CHR 0x97, CHR 0xEF, CHR 0xBC, CHR 0x8C,
      CHR 0xE4, CHR 0xB8, CHR 0x8D, CHR 0xE5, CHR 0x9C, CHR 0xA8, CHR 0xE7, CHR 0x9A, CHR 0x84,
      CHR 0xE8, CHR 0xAF, CHR 0x9D, CHR 0xE8, CHR 0xBF, CHR 0x9B, CHR 0xE5, CHR 0x9F, CHR 0x8E,
      CHR 0xE8, CHR 0xA6, CHR 0x81, CHR 0xE5, CHR 0xA4, CHR 0x9A, CHR 0xE4, CHR 0xB9, CHR 0x85,
      CHR 0xEF, CHR 0xBC, CHR 0x9F],
     [CHR 0xE5, CHR 0xAE, CHR 0xBF, CHR 0xE8, CHR 0x88, CHR 0x8D, CHR 0xE6, CHR 0xA5, CHR 0xBC,
      CHR 0xE6, CHR 0x9C, CHR 0x89, CHR 0xE6, CHR 0xB4, CHR 0x97, CHR 0xE8, CHR 0xA1, CHR 0xA3,
      CHR 0xE6, CHR 0x9C, CHR 0xBA, CHR 0xE5, CHR 0x90, CHR 0x97, CHR 0xEF, CHR 0xBC, CHR 0x9F],
     [CHR 0xE6, CHR 0xA0, CHR 0xA1, CHR 0xE5, CHR 0x9B, CHR 0xAD, CHR 0xE7, CHR 0xBD, CHR 0x91,
      CHR 0xE6, CHR 0x80, CHR 0x8E, CHR 0xE4, CHR 0xB9, CHR 0x88, CHR 0xE6, CHR 0xA0, CHR 0xB7,
      CHR 0xEF, CHR 0xBC, CHR 0x9F],
     [CHR 0xE6, CHR 0xAF, CHR 0x8F, CHR 0xE5, CHR 0xA4, CHR 0xA9, CHR 0xE6, CHR 0x96, CHR 0xAD,
      CHR 0xE7, CHR 0x94, CHR 0xB5, CHR 0xE6, CHR 0x96, CHR 0xAD, CHR 0xE7, CHR 0xBD, CHR 0x91,
      CHR 0xE5, CHR 0x90, CHR 0x97, CHR 0xEF, CHR 0xBC, CHR 0x8C, CHR 0xE5, CHR 0x87, CHR 0xA0,
      CHR 0xE7, CHR 0x82, CHR 0xB9, CHR 0xE5, CHR 0xBC, CHR 0x80, CHR 0xE5, CHR 0xA7, CHR 0x8B,
      CHR 0xE6, CHR 0x96, CHR 0xAD, CHR 0xEF, CHR 0xBC, CHR 0x9F],
     [CHR 0xE9, CHR 0xA3, CHR 0x9F, CHR 0xE5, CHR 0xA0, CHR 0x82, CHR 0xE4, CHR 0xBB, CHR 0xB7,
      CHR 0xE6, CHR 0xA0, CHR 0xBC, CHR 0xE8, CHR 0xB4, CHR 0xB5, CHR 0xE5, CHR 0x90, CHR 0x97,
      CHR 0xEF, CHR 0xBC, CHR 0x8C, CHR 0xE4, CHR 0xBC, CHR 0x9A, CHR 0xE5, CHR 0x90, CHR 0x83,
      CHR 0xE5, CHR 0x87, CHR 0xBA, CHR 0xE5, CHR 0xBC, CHR 0x82, CHR 0xE7, CHR 0x89, CHR 0xA9,
      CHR 0xE5, CHR 0x90, CHR 0x97, CHR 0xEF, CHR 0xBC, CHR 0x9F],
     [CHR 0xE6, CHR 0xB4, CHR 0x97, CHR 0xE6, CHR 0xBE, CHR 0xA1, CHR 0xE7, CHR 0x83, CHR 0xAD,
      CHR 0xE6, CHR 0xB0, CHR 0xB4, CHR 0xE4, CHR 0xBE, CHR 0x9B, CHR 0xE5, CHR 0xBA, CHR 0x94,
      CHR 0xE6, CHR 0x97, CHR 0xB6, CHR 0xE9, CHR 0x97, CHR 0xB4, CHR 0xEF, CHR 0xBC, CHR 0x9F],
     [CHR 0xE6, CHR 0xA0, CHR 0xA1, CHR 0xE5, CHR 0x9B, CHR 0xAD, CHR 0xE5, CHR 0x86, CHR 0x85,
      CHR 0xE5, CHR 0x8F, CHR 0xAF, CHR 0xE4, CHR 0xBB, CHR 0xA5, CHR 0xE9, CHR 0xAA, CHR 0x91,
      CHR 0xE7, CHR 0x94, CHR 0xB5, CHR 0xE7, CHR 0x93, CHR 0xB6, CHR 0xE8, CHR 0xBD, CHR 0xA6,
      CHR 0xE5, CHR 0x90, CHR 0x97, CHR 0xEF, CHR 0xBC, CHR 0x8C, CHR 0xE7, CHR 0x94, CHR 0xB5,
      CHR 0xE6, CHR 0xB1, CHR 0xA0, CHR 0xE5, CHR 0x9C, CHR 0xA8, CHR 0xE5, CHR 0x93, CHR 0xAA,
      CHR 0xE8, CHR 0x83, CHR 0xBD, CHR 0xE5, CHR 0x85, CHR 0x85, CHR 0xE7, CHR 0x94, CHR 0xB5,
      CHR 0xEF, CHR 0xBC, CHR 0x9F],
     [CHR 0xE5, CHR 0xAE, CHR 0xBF, CHR 0xE8, CHR 0x88, CHR 0x8D, CHR 0xE9, CHR 0x99, CHR 0x90,
      CHR 0xE7, CHR 0x94, CHR 0xB5, CHR 0xE6, CHR 0x83, CHR 0x85, CHR 0xE5, CHR 0x86, CHR 0xB5,
      CHR 0xEF, CHR 0xBC, CHR 0x9F],
     [CHR 0xE9, CHR 0x80, CHR 0x9A, CHR 0xE5, CHR 0xAE, CHR 0xB5, CHR 0xE8, CHR 0x87, CHR 0xAA,
      CHR 0xE4, CHR 0xB9, CHR 0xA0, CHR 0xE6, CHR 0x9C, CHR 0x89, CHR 0xE5, CHR 0x8E, CHR 0xBB,
      CHR 0xE5, CHR 0xA4, CHR 0x84, CHR 0xE5, CHR 0x90, CHR 0x97, CHR 0xEF, CHR 0xBC, CHR 0x9F],
     [CHR 0xE5, CHR 0xA4, CHR 0xA7, CHR 0xE4, CHR 0xB8, CHR 0x80, CHR 0xE8, CHR 0x83, CHR 0xBD,
      CHR 0xE5, CHR 0xB8, CHR 0xA6, CHR 0xE7, CHR 0x94, CHR 0xB5, CHR 0xE8, CHR 0x84, CHR 0x91,
      CHR 0xE5, CHR 0x90, CHR 0x97, CHR 0xEF, CHR 0xBC, CHR 0x9F],
     [CHR 0xE5, CHR 0xAD, CHR 0xA6, CHR 0xE6, CHR 0xA0, CHR 0xA1, CHR 0xE9, CHR 0x87, CHR 0x8C,
      CHR 0xE9, CHR 0x9D, CHR 0xA2, CHR 0xE7, CHR 0x94, CHR 0xA8, CHR 0xE4, CHR 0xBB, CHR 0x80,
      CHR 0xE4, CHR 0xB9, CHR 0x88, CHR 0xE5, CHR 0x8D, CHR 0xA1, CHR 0xEF, CHR 0xBC, CHR 0x8C,
      CHR 0xE9, CHR 0xA5, CHR 0xAD, CHR 0xE5, CHR 0xA0, CHR 0x82, CHR 0xE6, CHR 0x80, CHR 0x8E,
      CHR 0xE6, CHR 0xA0, CHR 0xB7, CHR 0xE6, CHR 0xB6, CHR 0x88, CHR 0xE8, CHR 0xB4, CHR 0xB9,
      CHR 0xEF, CHR 0xBC, CHR 0x9F],
     [CHR 0xE5, CHR 0xAD, CHR 0xA6, CHR 0xE6, CHR 0xA0, CHR 0xA1, CHR 0xE4, CHR 0xBC, CHR 0x9A,
      CHR 0xE7, CHR 0xBB, CHR 0x99, CHR 0xE5, CHR 0xAD, CHR 0xA6, CHR 0xE7, CHR 0x94, CHR 0x9F,
      CHR 0xE5, CHR 0x8F, CHR 0x91, CHR 0xE9, CHR 0x93, CHR 0xB6, CHR 0xE8, CHR 0xA1, CHR 0x8C,
      CHR 0xE5, CHR 0x8D, CHR 0xA1, CHR 0xE5, CHR 0x90, CHR 0x97, CHR 0xEF, CHR 0xBC, CHR 0x9F],
     [CHR 0xE5, CHR 0xAD, CHR 0xA6, CHR 0xE6, CHR 0xA0, CHR 0xA1, CHR 0xE7, CHR 0x9A, CHR 0x84,
      CHR 0xE8, CHR 0xB6, CHR 0x85, CHR 0xE5, CHR 0xB8, CHR 0x82, CHR 0xE6, CHR 0x80, CHR 0x8E,
      CHR 0xE4, CHR 0xB9, CHR 0x88, CHR 0xE6, CHR 0xA0, CHR 0xB7, CHR 0xEF, CHR 0xBC, CHR 0x9F],
     [CHR 0xE5, CHR 0xAD, CHR 0xA6, CHR 0xE6, CHR 0xA0, CHR 0xA1, CHR 0xE7, CHR 0x9A, CHR 0x84,
      CHR 0xE6, CHR 0x94, CHR 0xB6, CHR 0xE5, CHR 0x8F, CHR 0x91, CHR 0xE5, CHR 0xBF, CHR 0xAB,
      CHR 0xE9, CHR 0x80, CHR 0x92, CHR 0xE6, CHR 0x94, CHR 0xBF, CHR 0xE7, CHR 0xAD, CHR 0x96,
      CHR 0xE6, CHR 0x80, CHR 0x8E, CHR 0xE4, CHR 0xB9, CHR 0x88, CHR 0xE6, CHR 0xA0, CHR 0xB7,
      CHR 0xEF, CHR 0xBC, CHR 0x9F],
     [CHR 0xE5, CHR 0xAD, CHR 0xA6, CHR 0xE6, CHR 0xA0, CHR 0xA1, CHR 0xE9, CHR 0x87, CHR 0x8C,
      CHR 0xE9, CHR 0x9D, CHR 0xA2, CHR 0xE7, CHR 0x9A, CHR 0x84, CHR 0xE5, CHR 0x85, CHR 0xB1,
      CHR 0xE4, CHR 0xBA, CHR 0xAB, CHR 0xE5, CHR 0x8D, CHR 0x95, CHR 0xE8, CHR 0xBD, CHR 0xA6,
      CHR 0xE6, CHR 0x95, CHR 0xB0, CHR 0xE7, CHR 0x9B, CHR 0xAE, CHR 0xE4, CHR 0xB8, CHR 0x8E,
      CHR 0xE7, CHR 0xA7, CHR 0x8D, CHR 0xE7, CHR 0xB1, CHR 0xBB, CHR 0xE5, CHR 0xA6, CHR 0x82,
      CHR 0xE4, CHR 0xBD, CHR 0x95, CHR 0xEF, CHR 0xBC, CHR 0x9F],
     [CHR 0xE7, CHR 0x8E, CHR 0xB0, CHR 0xE9, CHR 0x98, CHR 0xB6, CHR 0xE6, CHR 0xAE, CHR 0xB5,
      CHR 0xE5, CHR 0xAD, CHR 0xA6, CHR 0xE6, CHR 0xA0, CHR 0xA1, CHR 0xE7, CHR 0x9A, CHR 0x84,
      CHR 0xE9, CHR 0x97, CHR 0xA8, CHR 0xE7, CHR 0xA6, CHR 0x81, CHR 0xE6, CHR 0x83, CHR 0x85,
      CHR 0xE5, CHR 0x86, CHR 0xB5, CHR 0xE5, CHR 0xA6, CHR 0x82, CHR 0xE4, CHR 0xBD, CHR 0x95,
      CHR 0xEF, CHR 0xBC, CHR 0x9F],
     [CHR 0xE5, CHR 0xAE, CHR 0xBF, CHR 0xE8, CHR 0x88, CHR 0x8D, CHR 0xE6, CHR 0x99, CHR 0x9A,
      CHR 0xE4, CHR 0xB8, CHR 0x8A, CHR 0xE6, CHR 0x9F, CHR 0xA5, CHR 0xE5, CHR 0xAF, CHR 0x9D,
      CHR 0xE5, CHR 0x90, CHR 0x97, CHR 0xEF, CHR 0xBC, CHR 0x8C, CHR 0xE5, CHR 0xB0, CHR 0x81,
      CHR 0xE5, CHR 0xAF, CHR 0x9D, CHR 0xE5, CHR 0x90, CHR 0x97, CHR 0xEF, CHR 0xBC, CHR 0x8C,
      CHR 0xE6, CHR 0x99, CHR 0x9A, CHR 0xE5, CHR 0xBD, CHR 0x92, CHR 0xE8, CHR 0x83, CHR 0xBD,
      CHR 0xE5, CHR 0x9B, CHR 0x9E, CHR 0xE5, CHR 0x8E, CHR 0xBB, CHR 0xE5, CHR 0x90, CHR 0x97,
      CHR 0xEF, CHR 0xBC, CHR 0x9F]]"

text \<open>\<open>str(n)\<close> for a natural number: its decimal digits.\<close>

definition digit :: "nat \<Rightarrow> char" where
  "digit d = ''0123456789'' ! d"

fun str_nat :: "nat \<Rightarrow> string" where
  "str_nat n = (if n < 10 then [digit n] else str_nat (n div 10) @ [digit (n mod 10)])"

declare str_nat.simps [simp del]

text \<open>\<open>str(i)\<close> for a Python \<open>int\<close>.\<close>

definition str_int :: "int \<Rightarrow> string" where
  "str_int i = (if i < 0 then ''-'' @ str_nat (nat (- i)) else str_nat (nat i))"

text \<open>\<open>sep.join(xs)\<close>.\<close>

fun str_join :: "string \<Rightarrow> string list \<Rightarrow> string" where
  "str_join sep [] = []"
| "str_join sep [x] = x"
| "str_join sep (x # y # ys) = x @ sep @ str_join sep (y # ys)"

text \<open>
  \<open>contains s sub\<close> is \<open>s.find(sub) >= 0\<close>: the text \<open>sub\<close> occurs in \<open>s\<close> (the empty
  text occurs in every text).
\<close>

fun starts_with :: "string \<Rightarrow> string \<Rightarrow> bool" where
  "starts_with s [] = True"
| "starts_with [] (c # cs) = False"
| "starts_with (x # xs) (c # cs) = (x = c \<and> starts_with xs cs)"

fun contains :: "string \<Rightarrow> string \<Rightarrow> bool" where
  "contains [] sub = (sub = [])"
| "contains (x # xs) sub = (starts_with (x # xs) sub \<or> contains xs sub)"

text \<open>
  \<open>FILENAME_PREPROCESS.sub('', name)\<close> deletes every character of the class
  \<open>[/>|:&]\<close>.
\<close>

definition FILENAME_PREPROCESS_sub :: "string \<Rightarrow> string" where
  "FILENAME_PREPROCESS_sub name = filter (\<lambda>c. c \<notin> set ''/>|:&'') name"

text \<open>
  \<open>NORMAL_NAME_MATCHER.search(name) is not None\<close>: one of the three alternatives of the
  pattern (the words for university, college and school) occurs in the name.
\<close>

definition NORMAL_NAME_MATCHER_search :: "string \<Rightarrow> bool" where
  "NORMAL_NAME_MATCHER_search name \<longleftrightarrow>
     contains name [CHR 0xE5, CHR 0xA4, CHR 0xA7, CHR 0xE5, CHR 0xAD, CHR 0xA6] \<or>
     contains name [CHR 0xE5, CHR 0xAD, CHR 0xA6, CHR 0xE9, CHR 0x99, CHR 0xA2] \<or>
     contains name [CHR 0xE5, CHR 0xAD, CHR 0xA6, CHR 0xE6, CHR 0xA0, CHR 0xA1]"

section \<open>Data classes\<close>

datatype error = ValueError | IndexError | KeyError

record IndexedContent =
  answer_id :: int
  content :: string

text \<open>
  \<open>AnswerGroup\<close> has the single field \<open>answers\<close>; its selector is named
  \<open>group_answers\<close> here, since \<open>University\<close> has a field \<open>answers\<close> too.
  Its method \<open>add_answer\<close> is \<open>group_add_answer\<close> for the same reason, and its
  method \<open>extend\<close> is \<open>group_extend\<close> (the record package uses the name \<open>extend\<close>).
\<close>

datatype AnswerGroup = AnswerGroup (group_answers: "IndexedContent list")

definition group_add_answer :: "AnswerGroup \<Rightarrow> IndexedContent \<Rightarrow> AnswerGroup" where
  "group_add_answer self ans = AnswerGroup (group_answers self @ [ans])"

definition group_extend :: "AnswerGroup \<Rightarrow> AnswerGroup \<Rightarrow> AnswerGroup" where
  "group_extend self other = AnswerGroup (group_answers self @ group_answers other)"

record University =
  answers :: "AnswerGroup list"
  additional_answers :: "IndexedContent list"
  credits :: "IndexedContent list"

text \<open>The default constructor: one empty group per question, no other content.\<close>

definition new_University :: University where
  "new_University =
     \<lparr>answers = map (\<lambda>_. AnswerGroup []) [0..<length QUESTIONNAIRE],
      additional_answers = [],
      credits = []\<rparr>"

text \<open>
  \<open>self.answers[index]\<close> is Python list indexing: a negative index counts from the end,
  and an index outside \<open>-len .. len - 1\<close> raises \<open>IndexError\<close>.
\<close>

definition add_answer :: "University \<Rightarrow> int \<Rightarrow> IndexedContent \<Rightarrow> error + University" where
  "add_answer self index answer =
     (let n = int (length (answers self));
          j = (if index < 0 then n + index else index)
      in if 0 \<le> j \<and> j < n
         then Inr (self\<lparr>answers :=
                 (answers self)[nat j := group_add_answer (answers self ! nat j) answer]\<rparr>)
         else Inl IndexError)"

text \<open>\<open>if answer.content:\<close> holds exactly when the text is not empty.\<close>

definition add_additional_answer :: "University \<Rightarrow> IndexedContent \<Rightarrow> University" where
  "add_additional_answer self answer =
     (if content answer \<noteq> []
      then self\<lparr>additional_answers := additional_answers self @ [answer]\<rparr>
      else self)"

definition add_credit :: "University \<Rightarrow> IndexedContent \<Rightarrow> University" where
  "add_credit self credit = self\<lparr>credits := credits self @ [credit]\<rparr>"

text \<open>
  The loop of \<open>combine_from\<close> over \<open>zip(self.answers, other.answers, strict=True)\<close>:
  the groups are extended pairwise, and \<open>zip\<close> raises \<open>ValueError\<close> when one list ends
  before the other. Nothing in the program catches the exception, so the run ends there
  and the groups already extended are not kept in the model.
\<close>

fun extend_groups :: "AnswerGroup list \<Rightarrow> AnswerGroup list \<Rightarrow> error + AnswerGroup list" where
  "extend_groups [] [] = Inr []"
| "extend_groups (mine # ms) (other_group # os) =
     (case extend_groups ms os of
        Inl e \<Rightarrow> Inl e
      | Inr rest \<Rightarrow> Inr (group_extend mine other_group # rest))"
| "extend_groups [] (other_group # os) = Inl ValueError"
| "extend_groups (mine # ms) [] = Inl ValueError"

definition combine_from :: "University \<Rightarrow> University \<Rightarrow> error + University" where
  "combine_from self other =
     (case extend_groups (answers self) (answers other) of
        Inl e \<Rightarrow> Inl e
      | Inr groups \<Rightarrow>
          Inr (self\<lparr>answers := groups,
                    additional_answers := additional_answers self @ additional_answers other,
                    credits := credits self @ credits other\<rparr>))"

section \<open>FilenameMap\<close>

text \<open>
  The candidate \<open>f'{base}-{idx}'\<close>. Distinct indices give distinct candidates, so a
  finite set \<open>used\<close> holds only finitely many of them: this is why the search below ends.
\<close>

definition numbered :: "string \<Rightarrow> nat \<Rightarrow> string" where
  "numbered base idx = base @ ''-'' @ str_nat idx"

lemma digit_inj: "a < 10 \<Longrightarrow> b < 10 \<Longrightarrow> digit a = digit b \<Longrightarrow> a = b"
proof -
  assume a: "a < 10" and b: "b < 10" and e: "digit a = digit b"
  have d: "distinct ''0123456789''" by simp
  have "length ''0123456789'' = 10" by simp
  with a b e d show "a = b"
    unfolding digit_def by (metis nth_eq_iff_index_eq)
qed

lemma str_nat_nonempty: "str_nat n \<noteq> []"
  by (subst str_nat.simps) simp

lemma str_nat_inj: "str_nat n = str_nat m \<Longrightarrow> n = m"
proof (induction n arbitrary: m rule: str_nat.induct)
  case (1 n)
  show ?case
  proof (cases "n < 10")
    case True
    then have sn: "str_nat n = [digit n]" by (subst str_nat.simps) simp
    show ?thesis
    proof (cases "m < 10")
      case mt: True
      then have "str_nat m = [digit m]" by (subst str_nat.simps) simp
      with sn "1.prems" have "digit n = digit m" by simp
      with True mt show ?thesis by (rule digit_inj)
    next
      case mf: False
      then have "str_nat m = str_nat (m div 10) @ [digit (m mod 10)]"
        by (subst str_nat.simps) simp
      with sn "1.prems" have "str_nat (m div 10) = []" by simp
      with str_nat_nonempty show ?thesis by blast
    qed
  next
    case False
    then have sn: "str_nat n = str_nat (n div 10) @ [digit (n mod 10)]"
      by (subst str_nat.simps) simp
    show ?thesis
    proof (cases "m < 10")
      case mt: True
      then have "str_nat m = [digit m]" by (subst str_nat.simps) simp
      with sn "1.prems" have "str_nat (n div 10) = []" by simp
      with str_nat_nonempty show ?thesis by blast
    next
      case mf: False
      then have "str_nat m = str_nat (m div 10) @ [digit (m mod 10)]"
        by (subst str_nat.simps) simp
      with sn "1.prems" have q: "str_nat (n div 10) = str_nat (m div 10)"
        and r: "digit (n mod 10) = digit (m mod 10)" by simp_all
      from "1.IH" [OF False q] have "n div 10 = m div 10" .
      moreover from r have "n mod 10 = m mod 10" by (intro digit_inj) simp_all
      ultimately show ?thesis by (metis div_mult_mod_eq)
    qed
  qed
qed

lemma inj_numbered: "inj (numbered base)"
  by (rule injI) (simp add: numbered_def str_nat_inj)

lemma finite_numbered: "finite {k. numbered base k |\<in>| used}"
proof -
  have "finite (numbered base -` fset used)"
    by (rule finite_vimageI) (simp_all add: inj_numbered)
  then show ?thesis by (simp add: vimage_def)
qed

text \<open>How many candidates with an index above \<open>idx\<close> are in use: the loop's variant.\<close>

definition ahead :: "string \<Rightarrow> string fset \<Rightarrow> nat \<Rightarrow> nat" where
  "ahead base used idx = card {k. idx < k \<and> numbered base k |\<in>| used}"

lemma ahead_step:
  "ahead base used idx =
     (if numbered base (Suc idx) |\<in>| used then 1 else 0) + ahead base used (Suc idx)"
proof -
  let ?A = "{k. idx < k \<and> numbered base k |\<in>| used}"
  let ?B = "{k. Suc idx < k \<and> numbered base k |\<in>| used}"
  have fin: "finite ?B" using finite_numbered [of base used] by (rule rev_finite_subset) auto
  show ?thesis
  proof (cases "numbered base (Suc idx) |\<in>| used")
    case True
    then have "?A = insert (Suc idx) ?B" by (auto simp: less_Suc_eq Suc_lessI)
    moreover have "Suc idx \<notin> ?B" by simp
    ultimately have "card ?A = Suc (card ?B)" using fin by simp
    with True show ?thesis by (simp add: ahead_def)
  next
    case False
    then have "?A = ?B" by (auto simp: Suc_lessI) (metis Suc_lessI)
    with False show ?thesis by (simp add: ahead_def)
  qed
qed

text \<open>
  The loop \<open>while slug in self.used: idx += 1; slug = f'{base}-{idx}'\<close>, with the loop
  variables \<open>slug\<close> and \<open>idx\<close> as arguments (\<open>idx\<close> starts at 1 and only grows, so it is a
  natural number).
\<close>

function find_slug :: "string \<Rightarrow> string fset \<Rightarrow> string \<Rightarrow> nat \<Rightarrow> string" where
  "find_slug base used slug idx =
     (if slug |\<in>| used
      then find_slug base used (numbered base (idx + 1)) (idx + 1)
      else slug)"
  by pat_completeness auto
termination
proof (relation "measure (\<lambda>(base, used, slug, idx).
          (if slug |\<in>| used then 1 else 0) + ahead base used idx)")
  show "wf (measure (\<lambda>(base, used, slug, idx).
          (if slug |\<in>| used then 1 else 0) + ahead base used idx))" by simp
next
  fix base :: string and used :: "string fset" and slug :: string and idx :: nat
  assume "slug |\<in>| used"
  then show "((base, used, numbered base (idx + 1), idx + 1), base, used, slug, idx)
       \<in> measure (\<lambda>(base, used, slug, idx). (if slug |\<in>| used then 1 else 0) + ahead base used idx)"
    using ahead_step [of base used idx] by simp
qed

declare find_slug.simps [simp del]

text \<open>
  \<open>mapping\<close> is the dictionary from names to slugs and \<open>used\<close> the (finite) set of
  the slugs given out.
\<close>

record FilenameMap =
  mapping :: "string \<rightharpoonup> string"
  used :: "string fset"

definition new_FilenameMap :: FilenameMap where
  "new_FilenameMap = \<lparr>mapping = Map.empty, used = {||}\<rparr>"

text \<open>
  \<open>FilenameMap.__getitem__\<close>. The function \<open>slugify\<close> of the package python-slugify is
  a parameter. The result is the slug and the instance after the call.
\<close>

definition getitem :: "(string \<Rightarrow> string) \<Rightarrow> FilenameMap \<Rightarrow> string \<Rightarrow> string \<times> FilenameMap" where
  "getitem slugify self name =
     (case mapping self name of
        Some slug \<Rightarrow> (slug, self)
      | None \<Rightarrow>
          (let base = slugify (FILENAME_PREPROCESS_sub name);
               slug = find_slug base (used self) base 1
           in (slug, self\<lparr>mapping := (mapping self)(name \<mapsto> slug),
                           used := finsert slug (used self)\<rparr>)))"

text \<open>
  A sequence of lookups on one instance, as the loop of
  \<open>write_markdown_for_universities\<close> makes them: the slugs in the order of the lookups,
  and the instance after the last one.
\<close>

fun lookups :: "(string \<Rightarrow> string) \<Rightarrow> FilenameMap \<Rightarrow> string list \<Rightarrow> string list \<times> FilenameMap" where
  "lookups slugify self [] = ([], self)"
| "lookups slugify self (name # names) =
     (let (slug, self') = getitem slugify self name;
          (slugs, self'') = lookups slugify self' names
      in (slug # slugs, self''))"

section \<open>Loading rows\<close>

text \<open>
  A registry (\<open>universities\<close>, \<open>universities_archived\<close>) is a Python dictionary from
  names to \<open>University\<close> objects: a list of pairs in insertion order with distinct keys.
  \<open>map_of\<close> looks a key up, \<open>AList.delete\<close> removes a key and keeps the order of the
  others, \<open>AList.map_entry\<close> changes the value stored under a key where it stands.
\<close>

type_synonym registry = "(string \<times> University) list"

text \<open>
  A \<open>datetime\<close> as \<open>datetime.strptime(..., '%Y-%m-%d %H:%M:%S')\<close> returns it (no
  time zone, no microseconds). Python orders two such values by their fields, from the
  year down to the second.
\<close>

record datetime =
  year :: nat
  month :: nat
  day :: nat
  hour :: nat
  minute :: nat
  second :: nat

definition datetime_lt :: "datetime \<Rightarrow> datetime \<Rightarrow> bool" where
  "datetime_lt a b \<longleftrightarrow>
     year a < year b \<or> (year a = year b \<and>
      (month a < month b \<or> (month a = month b \<and>
        (day a < day b \<or> (day a = day b \<and>
          (hour a < hour b \<or> (hour a = hour b \<and>
            (minute a < minute b \<or> (minute a = minute b \<and> second a < second b)))))))))"

text \<open>
  \<open>archive_cut = datetime.strptime(ARCHIVE_TIME, '%Y-%m-%d %H:%M:%S')\<close> with
  \<open>ARCHIVE_TIME = '2023-01-01 00:00:00'\<close>.
\<close>

definition archive_cut :: datetime where
  "archive_cut = \<lparr>year = 2023, month = 1, day = 1, hour = 0, minute = 0, second = 0\<rparr>"

text \<open>
  A row of the results file after the library calls that read its fields (\<open>csv.reader\<close>,
  \<open>int\<close>, \<open>float\<close>, \<open>zhconv.convert\<close>, \<open>strptime\<close>):
  \<^item> \<open>row_aid\<close> is \<open>int(aid)\<close> and \<open>row_anonymous\<close> is \<open>int(anonymous)\<close>;
  \<^item> \<open>row_show_email\<close> is \<open>Some (float(show_email) == 1.0)\<close>, or \<open>None\<close> when
    \<open>float(show_email)\<close> raises \<open>ValueError\<close>;
  \<^item> \<open>row_name\<close> is the name after \<open>zhconv.convert\<close>, \<open>NAME_PREPROCESS.sub\<close> and
    \<open>strip\<close>;
  \<^item> \<open>row_answers\<close> are the fields \<open>row[6:-9]\<close>, \<open>row_additional\<close> is \<open>row[-9]\<close>
    and \<open>row_submit_time\<close> is \<open>strptime(row[-8], ...)\<close>.
\<close>

record row =
  row_aid :: int
  row_anonymous :: int
  row_email :: string
  row_show_email :: "bool option"
  row_name :: string
  row_answers :: "string list"
  row_additional :: string
  row_submit_time :: datetime

text \<open>
  \<open>universities[name]\<close> on the \<open>defaultdict\<close>: a missing name is inserted at the end
  with a new \<open>University\<close>.
\<close>

definition defaultdict_getitem :: "registry \<Rightarrow> string \<Rightarrow> University \<times> registry" where
  "defaultdict_getitem universities name =
     (case map_of universities name of
        Some uni \<Rightarrow> (uni, universities)
      | None \<Rightarrow> (new_University, universities @ [(name, new_University)]))"

text \<open>The loop \<open>for i, ans in enumerate(answers): uni.add_answer(i, ...)\<close>.\<close>

fun add_answers :: "University \<Rightarrow> int \<Rightarrow> (nat \<times> string) list \<Rightarrow> error + University" where
  "add_answers uni aid [] = Inr uni"
| "add_answers uni aid ((i, ans) # rest) =
     (case add_answer uni (int i) \<lparr>answer_id = aid, content = ans\<rparr> of
        Inl e \<Rightarrow> Inl e
      | Inr uni' \<Rightarrow> add_answers uni' aid rest)"

text \<open>
  \<open>load_to_universities\<close>. The parameter \<open>month_text\<close> stands for the format
  \<open>{submit_time:%Y ... %m ...}\<close> of the credit line; the text before the bracket of an
  anonymous credit is written in bytes. The object \<open>uni\<close> is the one stored under
  \<open>name\<close>, so what the calls do to it is written back to that entry.
\<close>

definition load_to_universities ::
    "(datetime \<Rightarrow> string) \<Rightarrow> registry \<Rightarrow> row \<Rightarrow> error + registry" where
  "load_to_universities month_text universities r =
     (let aid = row_aid r;
          additional_answer = \<lparr>answer_id = aid, content = row_additional r\<rparr>;
          anonymous_flag = (row_anonymous r = 2)
      in case (if anonymous_flag then Inr False
               else (case row_show_email r of
                       None \<Rightarrow> Inl ValueError
                     | Some is_one \<Rightarrow> Inr is_one)) of
           Inl e \<Rightarrow> Inl e
         | Inr show_email_flag \<Rightarrow>
             (let name = row_name r;
                  (uni, universities1) = defaultdict_getitem universities name;
                  submit_time = row_submit_time r;
                  credit_text =
                    (if show_email_flag \<and> row_email r \<noteq> []
                     then row_email r @ '' ('' @ month_text submit_time @ '')''
                     else [CHR 0xE5, CHR 0x8C, CHR 0xBF, CHR 0xE5, CHR 0x90, CHR 0x8D] @
                          '' ('' @ month_text submit_time @ '')'');
                  uni1 = add_credit uni \<lparr>answer_id = aid, content = credit_text\<rparr>
              in case add_answers uni1 aid (enumerate 0 (row_answers r)) of
                   Inl e \<Rightarrow> Inl e
                 | Inr uni2 \<Rightarrow>
                     Inr (AList.map_entry name
                            (\<lambda>_. add_additional_answer uni2 additional_answer)
                            universities1)))"

text \<open>
  The body of the loop over the rows of the results file: the pair is
  \<open>(universities, universities_archived)\<close>.
\<close>

definition partition_row ::
    "(datetime \<Rightarrow> string) \<Rightarrow> registry \<times> registry \<Rightarrow> row \<Rightarrow> error + registry \<times> registry" where
  "partition_row month_text regs r =
     (case regs of (universities, universities_archived) \<Rightarrow>
        (let t = row_submit_time r
         in if datetime_lt t archive_cut
            then (case load_to_universities month_text universities_archived r of
                    Inl e \<Rightarrow> Inl e
                  | Inr target \<Rightarrow> Inr (universities, target))
            else (case load_to_universities month_text universities r of
                    Inl e \<Rightarrow> Inl e
                  | Inr target \<Rightarrow> Inr (target, universities_archived))))"

fun partition_rows ::
    "(datetime \<Rightarrow> string) \<Rightarrow> registry \<times> registry \<Rightarrow> row list \<Rightarrow> error + registry \<times> registry" where
  "partition_rows month_text regs [] = Inr regs"
| "partition_rows month_text regs (r # rows) =
     (case partition_row month_text regs r of
        Inl e \<Rightarrow> Inl e
      | Inr regs' \<Rightarrow> partition_rows month_text regs' rows)"

section \<open>process\_universities\<close>

text \<open>
  The inner loop \<open>for alias in aliases\<close> for one line of the alias file. The local
  variable \<open>primary\<close> is the object stored under \<open>name\<close>: \<open>combine_from\<close> changes it in
  place, so the entry of \<open>name\<close> shows the new content as long as the key is in the
  registry (\<open>AList.map_entry\<close> changes nothing when it is not). The loop state is the
  object and the registry.
\<close>

fun merge_aliases ::
    "string \<Rightarrow> string list \<Rightarrow> University \<times> registry \<Rightarrow> error + University \<times> registry" where
  "merge_aliases name [] (primary, universities) = Inr (primary, universities)"
| "merge_aliases name (alias # aliases) (primary, universities) =
     (case map_of universities alias of
        None \<Rightarrow> merge_aliases name aliases (primary, universities)
      | Some other \<Rightarrow>
          (case combine_from primary other of
             Inl e \<Rightarrow> Inl e
           | Inr primary' \<Rightarrow>
               merge_aliases name aliases
                 (primary',
                  AList.delete alias (AList.map_entry name (\<lambda>_. primary') universities))))"

text \<open>
  One line of the alias file, already split at the separator into the name and its
  aliases (\<open>name, *aliases = line.rstrip('\n').split(...)\<close>). The result is what the
  line prints and the registry after it.
\<close>

definition alias_line :: "registry \<Rightarrow> string \<times> string list \<Rightarrow> error + string list \<times> registry" where
  "alias_line universities line =
     (case line of (name, aliases) \<Rightarrow>
        (case map_of universities name of
           None \<Rightarrow> Inr ([''[warn] alias primary missing: '' @ name], universities)
         | Some primary \<Rightarrow>
             (case merge_aliases name aliases (primary, universities) of
                Inl e \<Rightarrow> Inl e
              | Inr (primary', universities') \<Rightarrow> Inr ([], universities'))))"

fun alias_lines ::
    "registry \<Rightarrow> (string \<times> string list) list \<Rightarrow> error + string list \<times> registry" where
  "alias_lines universities [] = Inr ([], universities)"
| "alias_lines universities (line # lines) =
     (case alias_line universities line of
        Inl e \<Rightarrow> Inl e
      | Inr (out, universities') \<Rightarrow>
          (case alias_lines universities' lines of
             Inl e \<Rightarrow> Inl e
           | Inr (out', universities'') \<Rightarrow> Inr (out @ out', universities'')))"

text \<open>
  \<open>dict.pop(key[, default])\<close>: the value stored under the key and the dictionary
  without it; for a missing key the default when one is given (\<open>Some d\<close>), and
  \<open>KeyError\<close> when none is. The source passes the default \<open>None\<close>, which is
  \<open>Some None\<close> here.
\<close>

definition pop ::
    "registry \<Rightarrow> string \<Rightarrow> University option option \<Rightarrow> error + University option \<times> registry" where
  "pop universities key dflt =
     (case map_of universities key of
        Some uni \<Rightarrow> Inr (Some uni, AList.delete key universities)
      | None \<Rightarrow>
          (case dflt of
             None \<Rightarrow> Inl KeyError
           | Some d \<Rightarrow> Inr (d, universities)))"

text \<open>
  The loop over the lines of the blacklist file; an entry is \<open>line.strip()\<close>.
\<close>

fun blacklist_lines :: "registry \<Rightarrow> string list \<Rightarrow> error + registry" where
  "blacklist_lines universities [] = Inr universities"
| "blacklist_lines universities (entry # entries) =
     (case pop universities entry (Some None) of
        Inl e \<Rightarrow> Inl e
      | Inr (popped, universities') \<Rightarrow> blacklist_lines universities' entries)"

text \<open>The line printed for a name that may be invalid.\<close>

definition maybe_invalid :: "string \<Rightarrow> University \<Rightarrow> string" where
  "maybe_invalid name uni =
     ''[warn] maybe invalid: '' @ name @ '' '' @
       str_join '','' (map (\<lambda>c. ''A'' @ str_int (answer_id c)) (credits uni))"

text \<open>
  The loop \<open>for name in list(universities.keys())\<close>: the lines it prints.
  \<open>universities[name]\<close> is a lookup by key.
\<close>

fun scan_names :: "string set \<Rightarrow> registry \<Rightarrow> string list \<Rightarrow> error + string list" where
  "scan_names whitelist universities [] = Inr []"
| "scan_names whitelist universities (name # names) =
     (if \<not> NORMAL_NAME_MATCHER_search name \<and> name \<notin> whitelist
      then (case map_of universities name of
              None \<Rightarrow> Inl KeyError
            | Some uni \<Rightarrow>
                (case scan_names whitelist universities names of
                   Inl e \<Rightarrow> Inl e
                 | Inr out \<Rightarrow> Inr (maybe_invalid name uni # out)))
      else scan_names whitelist universities names)"

text \<open>
  \<open>process_universities\<close>. The three files are parameters: the lines of the alias file
  and of the blacklist (\<open>None\<close> when the file does not exist) and the set of the lines of
  the whitelist (empty when it does not exist). The argument \<open>colleges\<close> of the source is
  not used by it and is left out. The result is the lines printed and the registry at
  the end. The two blocks \<open>if alias_path.exists(): ...\<close> and
  \<open>if blacklist.exists(): ...\<close> are \<open>alias_phase\<close> and \<open>blacklist_phase\<close>.
\<close>

definition alias_phase ::
    "(string \<times> string list) list option \<Rightarrow> registry \<Rightarrow> error + string list \<times> registry" where
  "alias_phase alias_file universities =
     (case alias_file of
        None \<Rightarrow> Inr ([], universities)
      | Some lines \<Rightarrow> alias_lines universities lines)"

definition blacklist_phase :: "string list option \<Rightarrow> registry \<Rightarrow> error + registry" where
  "blacklist_phase blacklist_file universities =
     (case blacklist_file of
        None \<Rightarrow> Inr universities
      | Some entries \<Rightarrow> blacklist_lines universities entries)"

definition process_universities ::
    "(string \<times> string list) list option \<Rightarrow> string list option \<Rightarrow> string set \<Rightarrow> registry
       \<Rightarrow> error + string list \<times> registry" where
  "process_universities alias_file blacklist_file whitelist universities =
     (case alias_phase alias_file universities of
        Inl e \<Rightarrow> Inl e
      | Inr (out1, universities1) \<Rightarrow>
          (case blacklist_phase blacklist_file universities1 of
             Inl e \<Rightarrow> Inl e
           | Inr universities2 \<Rightarrow>
               (case scan_names whitelist universities2 (map fst universities2) of
                  Inl e \<Rightarrow> Inl e
                | Inr out3 \<Rightarrow> Inr (out1 @ out3, universities2))))"

section \<open>Paths\<close>

text \<open>
  The part of \<open>pathlib\<close> the program uses, for POSIX paths as CPython 3.12 implements
  them (\<open>PurePosixPath\<close>): a path is its root (empty, \<open>/\<close> or \<open>//\<close>) and the list
  of its components. A text is split at every \<open>/\<close>, and empty components and the
  component \<open>.\<close> are dropped. On Windows \<open>/\<close> separates components as well (and so
  does the backslash).
\<close>

record Path =
  root :: string
  tail :: "string list"

fun split_sep :: "string \<Rightarrow> string list" where
  "split_sep [] = [[]]"
| "split_sep (c # cs) =
     (if c = CHR ''/'' then [] # split_sep cs
      else (case split_sep cs of
              [] \<Rightarrow> [[c]]
            | w # ws \<Rightarrow> (c # w) # ws))"

text \<open>\<open>posixpath.splitroot\<close>: exactly two leading slashes are a root of their own.\<close>

definition splitroot :: "string \<Rightarrow> string \<times> string" where
  "splitroot p =
     (if take 1 p \<noteq> ''/'' then ([], p)
      else if take 1 (drop 1 p) \<noteq> ''/'' \<or> take 1 (drop 2 p) = ''/'' then (''/'', drop 1 p)
      else (''//'', drop 2 p))"

definition parse_path :: "string \<Rightarrow> Path" where
  "parse_path p =
     (case splitroot p of (r, rel) \<Rightarrow>
        \<lparr>root = r, tail = filter (\<lambda>x. x \<noteq> [] \<and> x \<noteq> ''.'') (split_sep rel)\<rparr>)"

text \<open>
  \<open>self / key\<close> for a text \<open>key\<close>: a key that starts with \<open>/\<close> replaces the path, any
  other key adds its components.
\<close>

definition joinpath :: "Path \<Rightarrow> string \<Rightarrow> Path" where
  "joinpath self key =
     (if take 1 key = ''/'' then parse_path key
      else self\<lparr>tail := tail self @ tail (parse_path key)\<rparr>)"

text \<open>\<open>str(path)\<close>.\<close>

definition str_path :: "Path \<Rightarrow> string" where
  "str_path self =
     (if root self = [] \<and> tail self = [] then ''.''
      else root self @ str_join ''/'' (tail self))"

definition path_name :: "Path \<Rightarrow> string" where
  "path_name self = (if tail self = [] then [] else last (tail self))"

text \<open>\<open>s.rfind(c)\<close>: the last index of the character, or \<open>-1\<close>.\<close>

definition rfind :: "string \<Rightarrow> char \<Rightarrow> int" where
  "rfind s c =
     (if c \<in> set s
      then int (length s) - 1 - int (length (takeWhile (\<lambda>x. x \<noteq> c) (rev s)))
      else - 1)"

definition path_suffix :: "Path \<Rightarrow> string" where
  "path_suffix self =
     (let name = path_name self; i = rfind name CHR ''.''
      in if 0 < i \<and> i < int (length name) - 1 then drop (nat i) name else [])"

definition path_stem :: "Path \<Rightarrow> string" where
  "path_stem self =
     (let name = path_name self; i = rfind name CHR ''.''
      in if 0 < i \<and> i < int (length name) - 1 then take (nat i) name else name)"

definition with_name :: "Path \<Rightarrow> string \<Rightarrow> error + Path" where
  "with_name self name =
     (if path_name self = [] then Inl ValueError
      else if name = [] \<or> CHR ''/'' \<in> set name \<or> name = ''.'' then Inl ValueError
      else Inr (self\<lparr>tail := butlast (tail self) @ [name]\<rparr>))"

definition with_stem :: "Path \<Rightarrow> string \<Rightarrow> error + Path" where
  "with_stem self stem = with_name self (stem @ path_suffix self)"

text \<open>
  \<open>SITE_DIR = Path(r'D:\Project\questionnaire-report-theme')\<close>; the backslash is
  \<open>CHR 0x5C\<close>.
\<close>

definition SITE_DIR :: Path where
  "SITE_DIR =
     parse_path (''D:'' @ [CHR 0x5C] @ ''Project'' @ [CHR 0x5C] @ ''questionnaire-report-theme'')"

definition generate_markdown_path :: "string \<Rightarrow> string \<Rightarrow> bool \<Rightarrow> Path" where
  "generate_markdown_path province university_name archived =
     (let base = joinpath (joinpath SITE_DIR ''content'') ''docs'';
          base = (if archived then joinpath base ''archived'' else base)
      in joinpath (joinpath (joinpath base ''universities'') province)
           (university_name @ ''.md''))"

section \<open>Rendering\<close>

text \<open>
  \<open>sanitize_filename\<close>: every character of the class of \<open>illegal_pattern\<close> (backslash,
  slash, colon, star, question mark, double quote, the angle brackets, the bar and the
  character 0) becomes \<open>_\<close>.
\<close>

definition illegal_pattern :: "char set" where
  "illegal_pattern =
     {CHR 0x5C, CHR ''/'', CHR '':'', CHR ''*'', CHR ''?'', CHR 0x22, CHR ''<'', CHR ''>'',
      CHR ''|'', CHR 0x00}"

definition sanitize_filename :: "string \<Rightarrow> string \<times> bool" where
  "sanitize_filename filename =
     (let cleaned = map (\<lambda>c. if c \<in> illegal_pattern then CHR ''_'' else c) filename
      in (cleaned, cleaned \<noteq> filename))"

text \<open>
  \<open>find_province\<close>: \<open>colleges\<close> is a dictionary, read in insertion order; the default
  province is written in bytes.
\<close>

fun find_province :: "string \<Rightarrow> (string \<times> string) list \<Rightarrow> string" where
  "find_province name [] = [CHR 0xE5, CHR 0x85, CHR 0xB6, CHR 0xE4, CHR 0xBB, CHR 0x96]"
| "find_province name ((key, prov) # colleges) =
     (if contains name key then prov else find_province name colleges)"

text \<open>
  The body of the first loop of \<open>write_markdown_for_universities\<close> for one entry of the
  registry: the lines it prints, the task it appends and the \<open>FilenameMap\<close> after it.
  The text after the path in the line printed is written in bytes.
\<close>

type_synonym task = "string \<times> University \<times> string \<times> Path"

definition prepare_task ::
    "(string \<Rightarrow> string) \<Rightarrow> (string \<times> string) list \<Rightarrow> bool \<Rightarrow> FilenameMap
       \<Rightarrow> string \<times> University \<Rightarrow> error + string list \<times> task \<times> FilenameMap" where
  "prepare_task slugify colleges archived filename_map entry =
     (case entry of (name, uni) \<Rightarrow>
        (let (slug, filename_map') = getitem slugify filename_map name;
             province = find_province name colleges;
             target = generate_markdown_path province name archived;
             (target_name, is_illegal) = sanitize_filename (path_stem target)
         in if is_illegal
            then (case with_stem target target_name of
                    Inl e \<Rightarrow> Inl e
                  | Inr target' \<Rightarrow>
                      Inr ([''[error] '' @ str_path target @ '' '' @
                             [CHR 0xE6, CHR 0x96, CHR 0x87, CHR 0xE4, CHR 0xBB, CHR 0xB6,
                              CHR 0xE5, CHR 0x90, CHR 0x8D, CHR 0xE5, CHR 0x8F, CHR 0xAF,
                              CHR 0xE8, CHR 0x83, CHR 0xBD, CHR 0xE9, CHR 0x9D, CHR 0x9E,
                              CHR 0xE6, CHR 0xB3, CHR 0x95, CHR 0xEF, CHR 0xBC, CHR 0x81]],
                           (name, uni, slug, target'), filename_map'))
            else Inr ([], (name, uni, slug, target), filename_map')))"

fun prepare_tasks ::
    "(string \<Rightarrow> string) \<Rightarrow> (string \<times> string) list \<Rightarrow> bool \<Rightarrow> FilenameMap
       \<Rightarrow> registry \<Rightarrow> error + string list \<times> task list \<times> FilenameMap" where
  "prepare_tasks slugify colleges archived filename_map [] = Inr ([], [], filename_map)"
| "prepare_tasks slugify colleges archived filename_map (entry # universities) =
     (case prepare_task slugify colleges archived filename_map entry of
        Inl e \<Rightarrow> Inl e
      | Inr (out, t, filename_map') \<Rightarrow>
          (case prepare_tasks slugify colleges archived filename_map' universities of
             Inl e \<Rightarrow> Inl e
           | Inr (out', ts, filename_map'') \<Rightarrow> Inr (out @ out', t # ts, filename_map'')))"

text \<open>
  \<open>max_workers = min(32, max(1, (os.cpu_count() or 1) * 4))\<close>. The argument is the
  result of \<open>os.cpu_count()\<close>: \<open>None\<close>, or the number of logical cores. \<open>x or 1\<close> is 1
  when \<open>x\<close> is \<open>None\<close> or 0.
\<close>

definition logical_cores :: "int option \<Rightarrow> int" where
  "logical_cores cpu_count =
     (case cpu_count of
        None \<Rightarrow> 1
      | Some n \<Rightarrow> (if n = 0 then 1 else n))"

definition max_workers :: "int option \<Rightarrow> int" where
  "max_workers cpu_count = min 32 (max 1 (logical_cores cpu_count * 4))"

section \<open>Auxiliary notions for the statements\<close>

text \<open>
  The content of a successful \<open>combine_from\<close>, as a function: the groups extended
  pairwise, the two other lists appended.
\<close>

definition combined :: "University \<Rightarrow> University \<Rightarrow> University" where
  "combined self other =
     self\<lparr>answers := map2 group_extend (answers self) (answers other),
          additional_answers := additional_answers self @ additional_answers other,
          credits := credits self @ credits other\<rparr>"


text \<open>
  The invariant of a \<open>FilenameMap\<close>: no two names have the same slug, and every slug of
  \<open>mapping\<close> is in \<open>used\<close>.
\<close>

definition consistent :: "FilenameMap \<Rightarrow> bool" where
  "consistent fm \<longleftrightarrow>
     inj_on (mapping fm) (dom (mapping fm)) \<and> ran (mapping fm) \<subseteq> fset (used fm)"

text \<open>
  The aliases of a line that are merged: an alias is merged when it is a key at its turn,
  and a key that has been merged is a key no more.
\<close>

fun merged_aliases :: "string set \<Rightarrow> string list \<Rightarrow> string list" where
  "merged_aliases keys [] = []"
| "merged_aliases keys (a # as) =
     (if a \<in> keys then a # merged_aliases (keys - {a}) as else merged_aliases keys as)"

text \<open>
  One merge of the loop as a function of the registry before the loop: the object merged
  in is the primary itself when the alias is the primary's own name.
\<close>

definition merge_step :: "string \<Rightarrow> registry \<Rightarrow> University \<Rightarrow> string \<Rightarrow> University" where
  "merge_step name universities acc a =
     combined acc (if a = name then acc else the (map_of universities a))"

text \<open>The registry with another object under one name.\<close>

definition with_primary :: "string \<Rightarrow> University \<Rightarrow> registry \<Rightarrow> registry" where
  "with_primary name primary universities =
     map (\<lambda>(k, v). if k = name then (k, primary) else (k, v)) universities"




text \<open>The entry of the registry a task was made for: its name and its aggregate.\<close>

definition task_entry :: "task \<Rightarrow> string \<times> University" where
  "task_entry t = (fst t, fst (snd t))"

section \<open>Properties of the aggregate\<close>

lemma length_QUESTIONNAIRE: "length QUESTIONNAIRE = 25"
  by (simp add: QUESTIONNAIRE_def)

lemma extend_groups_same_length:
  "length ms = length os \<Longrightarrow> extend_groups ms os = Inr (map2 group_extend ms os)"
  by (induction ms os rule: list_induct2) simp_all

lemma extend_groups_mismatch:
  "length ms \<noteq> length os \<Longrightarrow> extend_groups ms os = Inl ValueError"
  by (induction ms os rule: extend_groups.induct) simp_all

lemma combine_from_combined:
  "length (answers self) = length (answers other) \<Longrightarrow>
     combine_from self other = Inr (combined self other)"
  by (simp add: combine_from_def combined_def extend_groups_same_length)

lemma length_answers_combined:
  "length (answers self) = length (answers other) \<Longrightarrow>
     length (answers (combined self other)) = length (answers self)"
  by (simp add: combined_def)

text \<open>
  C2: for two aggregates with the same number of answer groups, \<open>combine_from\<close> returns;
  afterwards every group holds the records of the first aggregate followed by those of
  the second, and so do the additional answers and the credits.
\<close>

theorem combine_from_order:
  assumes "length (answers A) = length (answers B)"
  shows "\<exists>A'. combine_from A B = Inr A' \<and>
           length (answers A') = length (answers A) \<and>
           (\<forall>i < length (answers A).
              group_answers (answers A' ! i) =
                group_answers (answers A ! i) @ group_answers (answers B ! i)) \<and>
           additional_answers A' = additional_answers A @ additional_answers B \<and>
           credits A' = credits A @ credits B"
  using assms
  by (simp add: combine_from_def extend_groups_same_length group_extend_def)

text \<open>
  At two aggregates with one group each, the merge puts the first one's records first,
  and merging the other way round gives another result.
\<close>

theorem combine_from_order_witness:
  "combine_from
     \<lparr>answers = [AnswerGroup [\<lparr>answer_id = 1, content = ''yes''\<rparr>]],
      additional_answers = [\<lparr>answer_id = 1, content = ''far''\<rparr>],
      credits = [\<lparr>answer_id = 1, content = ''a''\<rparr>]\<rparr>
     \<lparr>answers = [AnswerGroup [\<lparr>answer_id = 2, content = ''no''\<rparr>]],
      additional_answers = [],
      credits = [\<lparr>answer_id = 2, content = ''b''\<rparr>]\<rparr>
   = Inr \<lparr>answers = [AnswerGroup [\<lparr>answer_id = 1, content = ''yes''\<rparr>,
                                   \<lparr>answer_id = 2, content = ''no''\<rparr>]],
          additional_answers = [\<lparr>answer_id = 1, content = ''far''\<rparr>],
          credits = [\<lparr>answer_id = 1, content = ''a''\<rparr>, \<lparr>answer_id = 2, content = ''b''\<rparr>]\<rparr> \<and>
   combine_from
     \<lparr>answers = [AnswerGroup [\<lparr>answer_id = 2, content = ''no''\<rparr>]],
      additional_answers = [],
      credits = [\<lparr>answer_id = 2, content = ''b''\<rparr>]\<rparr>
     \<lparr>answers = [AnswerGroup [\<lparr>answer_id = 1, content = ''yes''\<rparr>]],
      additional_answers = [\<lparr>answer_id = 1, content = ''far''\<rparr>],
      credits = [\<lparr>answer_id = 1, content = ''a''\<rparr>]\<rparr>
   = Inr \<lparr>answers = [AnswerGroup [\<lparr>answer_id = 2, content = ''no''\<rparr>,
                                   \<lparr>answer_id = 1, content = ''yes''\<rparr>]],
          additional_answers = [\<lparr>answer_id = 1, content = ''far''\<rparr>],
          credits = [\<lparr>answer_id = 2, content = ''b''\<rparr>, \<lparr>answer_id = 1, content = ''a''\<rparr>]\<rparr>"
  using combine_from_order
    [of "\<lparr>answers = [AnswerGroup [\<lparr>answer_id = 1, content = ''yes''\<rparr>]],
          additional_answers = [\<lparr>answer_id = 1, content = ''far''\<rparr>],
          credits = [\<lparr>answer_id = 1, content = ''a''\<rparr>]\<rparr>"
        "\<lparr>answers = [AnswerGroup [\<lparr>answer_id = 2, content = ''no''\<rparr>]],
          additional_answers = [],
          credits = [\<lparr>answer_id = 2, content = ''b''\<rparr>]\<rparr>"]
  by (simp add: combine_from_def group_extend_def)

text \<open>
  C3: a new \<open>University\<close> has one answer group per question; \<open>add_answer\<close> (which
  returns exactly for an index in the range of the list), \<open>add_additional_answer\<close>,
  \<open>add_credit\<close> and \<open>combine_from\<close> with an aggregate of the same number of groups keep
  the number of groups; \<open>combine_from\<close> with an aggregate of another number of groups
  raises \<open>ValueError\<close>.
\<close>

theorem answers_length_invariant:
  "length (answers new_University) = length QUESTIONNAIRE \<and>
   (- int (length (answers u)) \<le> i \<and> i < int (length (answers u)) \<longrightarrow>
      (\<exists>u'. add_answer u i a = Inr u' \<and> length (answers u') = length (answers u))) \<and>
   (\<not> (- int (length (answers u)) \<le> i \<and> i < int (length (answers u))) \<longrightarrow>
      add_answer u i a = Inl IndexError) \<and>
   length (answers (add_additional_answer u a)) = length (answers u) \<and>
   length (answers (add_credit u a)) = length (answers u) \<and>
   (length (answers u) = length (answers v) \<longrightarrow>
      (\<exists>u'. combine_from u v = Inr u' \<and> length (answers u') = length (answers u))) \<and>
   (length (answers u) \<noteq> length (answers v) \<longrightarrow> combine_from u v = Inl ValueError)"
proof -
  have 1: "length (answers new_University) = length QUESTIONNAIRE"
    by (simp add: new_University_def)
  have 2: "- int (length (answers u)) \<le> i \<and> i < int (length (answers u)) \<longrightarrow>
      (\<exists>u'. add_answer u i a = Inr u' \<and> length (answers u') = length (answers u))"
    by (auto simp: add_answer_def Let_def)
  have 3: "\<not> (- int (length (answers u)) \<le> i \<and> i < int (length (answers u))) \<longrightarrow>
      add_answer u i a = Inl IndexError"
    by (auto simp: add_answer_def Let_def)
  have 4: "length (answers (add_additional_answer u a)) = length (answers u)"
    by (simp add: add_additional_answer_def)
  have 5: "length (answers (add_credit u a)) = length (answers u)"
    by (simp add: add_credit_def)
  have 6: "length (answers u) = length (answers v) \<longrightarrow>
      (\<exists>u'. combine_from u v = Inr u' \<and> length (answers u') = length (answers u))"
    by (simp add: combine_from_def extend_groups_same_length)
  have 7: "length (answers u) \<noteq> length (answers v) \<longrightarrow> combine_from u v = Inl ValueError"
    by (simp add: combine_from_def extend_groups_mismatch)
  from 1 2 3 4 5 6 7 show ?thesis by blast
qed

text \<open>
  At a new aggregate: 25 groups; the index 24 is accepted and the index 25 refused; two
  new aggregates merge into one of 25 groups; an aggregate with no group at all is
  refused.
\<close>

theorem answers_length_invariant_witness:
  "length (answers new_University) = 25 \<and>
   (\<exists>u'. add_answer new_University 24 \<lparr>answer_id = 3, content = ''yes''\<rparr> = Inr u' \<and>
          length (answers u') = 25) \<and>
   (\<exists>u'. combine_from new_University new_University = Inr u' \<and> length (answers u') = 25) \<and>
   combine_from new_University (new_University\<lparr>answers := []\<rparr>) = Inl ValueError"
proof -
  have len: "length (answers new_University) = 25"
    by (simp add: new_University_def length_QUESTIONNAIRE)
  note a = answers_length_invariant
    [of new_University 24 "\<lparr>answer_id = 3, content = ''yes''\<rparr>" new_University]
  note b = answers_length_invariant
    [of new_University 24 "\<lparr>answer_id = 3, content = ''yes''\<rparr>"
        "new_University\<lparr>answers := []\<rparr>"]
  from a b len show ?thesis by auto
qed

text \<open>
  C8: \<open>add_additional_answer\<close> with an empty text leaves the list of additional answers
  (and the whole aggregate) as it was; with a text that is not empty it appends exactly
  the given record at the end of the list and changes nothing else.
\<close>

theorem add_additional_answer_filter:
  "(content answer = [] \<longrightarrow> add_additional_answer self answer = self) \<and>
   (content answer \<noteq> [] \<longrightarrow>
      additional_answers (add_additional_answer self answer) = additional_answers self @ [answer] \<and>
      length (additional_answers (add_additional_answer self answer)) =
        Suc (length (additional_answers self)) \<and>
      answers (add_additional_answer self answer) = answers self \<and>
      credits (add_additional_answer self answer) = credits self)"
  by (simp add: add_additional_answer_def)

theorem add_additional_answer_filter_witness:
  "add_additional_answer new_University \<lparr>answer_id = 7, content = []\<rparr> = new_University \<and>
   additional_answers (add_additional_answer new_University \<lparr>answer_id = 7, content = ''ok''\<rparr>)
     = [\<lparr>answer_id = 7, content = ''ok''\<rparr>]"
  using add_additional_answer_filter [of "\<lparr>answer_id = 7, content = []\<rparr>" new_University]
    add_additional_answer_filter [of "\<lparr>answer_id = 7, content = ''ok''\<rparr>" new_University]
  by (simp add: new_University_def)

section \<open>Properties of FilenameMap\<close>

lemma find_slug_fresh: "find_slug base taken slug idx |\<notin>| taken"
  by (induction base taken slug idx rule: find_slug.induct)
     (subst find_slug.simps, simp)

lemma consistent_new: "consistent new_FilenameMap"
  by (simp add: consistent_def new_FilenameMap_def)

lemma getitem_step:
  assumes "consistent fm" and "getitem slugify fm name = (slug, fm')"
  shows "consistent fm' \<and> mapping fm' name = Some slug \<and> mapping fm \<subseteq>\<^sub>m mapping fm'"
proof (cases "mapping fm name")
  case (Some s)
  with assms(2) have "slug = s" "fm' = fm" by (simp_all add: getitem_def)
  with assms(1) Some show ?thesis by simp
next
  case None
  define base where "base = slugify (FILENAME_PREPROCESS_sub name)"
  have slug: "slug = find_slug base (used fm) base 1"
    and fm': "fm' = fm\<lparr>mapping := (mapping fm)(name \<mapsto> slug), used := finsert slug (used fm)\<rparr>"
    using assms(2) None by (auto simp add: getitem_def Let_def base_def)
  have fresh: "slug |\<notin>| used fm" unfolding slug by (rule find_slug_fresh)
  with assms(1) have nr: "slug \<notin> ran (mapping fm)" by (auto simp: consistent_def)
  have m1: "mapping fm' name = Some slug" by (simp add: fm')
  have m2: "mapping fm \<subseteq>\<^sub>m mapping fm'" using None by (simp add: fm' map_le_def dom_def)
  have "inj_on (mapping fm') (dom (mapping fm'))"
    unfolding inj_on_def
  proof (intro ballI impI)
    fix a b
    assume a: "a \<in> dom (mapping fm')" and b: "b \<in> dom (mapping fm')"
      and e: "mapping fm' a = mapping fm' b"
    show "a = b"
    proof (cases "a = name")
      case at: True
      show ?thesis
      proof (cases "b = name")
        case True
        with at show ?thesis by simp
      next
        case False
        with e at have "mapping fm b = Some slug" by (simp add: fm')
        with nr show ?thesis by (auto simp: ran_def)
      qed
    next
      case af: False
      show ?thesis
      proof (cases "b = name")
        case True
        with e af have "mapping fm a = Some slug" by (simp add: fm')
        with nr show ?thesis by (auto simp: ran_def)
      next
        case False
        with af a b e
        have "a \<in> dom (mapping fm)" "b \<in> dom (mapping fm)" "mapping fm a = mapping fm b"
          by (simp_all add: fm')
        with assms(1) show ?thesis by (auto simp: consistent_def inj_on_def)
      qed
    qed
  qed
  moreover have "ran (mapping fm') \<subseteq> fset (used fm')"
  proof
    fix s
    assume "s \<in> ran (mapping fm')"
    then obtain k where "mapping fm' k = Some s" by (auto simp: ran_def)
    then have "s = slug \<or> s \<in> ran (mapping fm)"
      by (cases "k = name") (auto simp: fm' ran_def)
    with assms(1) show "s \<in> fset (used fm')" by (auto simp: fm' consistent_def)
  qed
  ultimately have "consistent fm'" by (simp add: consistent_def)
  with m1 m2 show ?thesis by simp
qed

lemma lookups_final:
  assumes "consistent fm" and "lookups slugify fm names = (slugs, fm')"
  shows "consistent fm' \<and> mapping fm \<subseteq>\<^sub>m mapping fm' \<and> length slugs = length names \<and>
         (\<forall>i < length names. mapping fm' (names ! i) = Some (slugs ! i))"
  using assms
proof (induction names arbitrary: fm slugs fm')
  case Nil
  then show ?case by simp
next
  case (Cons name names)
  obtain slug fm1 where g: "getitem slugify fm name = (slug, fm1)"
    by (cases "getitem slugify fm name")
  obtain rest fm2 where l: "lookups slugify fm1 names = (rest, fm2)"
    by (cases "lookups slugify fm1 names")
  from Cons.prems(2) g l have eq: "slugs = slug # rest" "fm' = fm2" by simp_all
  from getitem_step [OF Cons.prems(1) g]
  have st: "consistent fm1" "mapping fm1 name = Some slug" "mapping fm \<subseteq>\<^sub>m mapping fm1"
    by simp_all
  from Cons.IH [OF st(1) l]
  have ih: "consistent fm2" "mapping fm1 \<subseteq>\<^sub>m mapping fm2" "length rest = length names"
    "\<forall>i < length names. mapping fm2 (names ! i) = Some (rest ! i)"
    by simp_all
  have le: "mapping fm \<subseteq>\<^sub>m mapping fm2" using st(3) ih(2) by (rule map_le_trans)
  have hd: "mapping fm2 name = Some slug"
    using st(2) ih(2) by (metis domI map_le_def)
  have "\<forall>i < length (name # names). mapping fm2 ((name # names) ! i) = Some ((slug # rest) ! i)"
  proof (intro allI impI)
    fix i
    assume "i < length (name # names)"
    then show "mapping fm2 ((name # names) ! i) = Some ((slug # rest) ! i)"
      using hd ih(4) by (cases i) simp_all
  qed
  with ih le eq show ?case by simp
qed

text \<open>
  C1: take any sequence of lookups on a new \<open>FilenameMap\<close>, with \<open>slugs\<close> the slugs
  returned and \<open>fm\<close> the instance after the last lookup. Two lookups of different names
  returned different slugs, two lookups of the same name returned the same slug, and
  every slug of \<open>mapping\<close> is in \<open>used\<close>. The sequence is arbitrary, so this holds after
  every lookup. Every lookup returns: \<open>find_slug\<close> is a total function.
\<close>

theorem slug_injective:
  assumes "lookups slugify new_FilenameMap names = (slugs, fm)"
    and "i < length names" and "j < length names"
  shows "(names ! i \<noteq> names ! j \<longrightarrow> slugs ! i \<noteq> slugs ! j) \<and>
         (names ! i = names ! j \<longrightarrow> slugs ! i = slugs ! j) \<and>
         ran (mapping fm) \<subseteq> fset (used fm)"
proof -
  from lookups_final [OF consistent_new assms(1)]
  have c: "consistent fm" and m: "\<forall>i < length names. mapping fm (names ! i) = Some (slugs ! i)"
    by simp_all
  from m assms have mi: "mapping fm (names ! i) = Some (slugs ! i)"
    and mj: "mapping fm (names ! j) = Some (slugs ! j)" by simp_all
  have "slugs ! i = slugs ! j \<Longrightarrow> names ! i = names ! j"
  proof -
    assume "slugs ! i = slugs ! j"
    with mi mj have "mapping fm (names ! i) = mapping fm (names ! j)" by simp
    moreover from mi mj have "names ! i \<in> dom (mapping fm)" "names ! j \<in> dom (mapping fm)"
      by auto
    ultimately show ?thesis using c by (auto simp: consistent_def inj_on_def)
  qed
  moreover have "names ! i = names ! j \<Longrightarrow> slugs ! i = slugs ! j" using mi mj by simp
  ultimately show ?thesis using c by (auto simp: consistent_def)
qed

text \<open>
  With a \<open>slugify\<close> that maps every name to \<open>u\<close>, the lookups of \<open>a\<close>, \<open>b\<close> and \<open>a\<close>
  again return \<open>u\<close>, \<open>u-2\<close> and \<open>u\<close>.
\<close>

theorem slug_injective_witness:
  "fst (lookups (\<lambda>_. ''u'') new_FilenameMap [''a'', ''b'', ''a'']) = [''u'', ''u-2'', ''u''] \<and>
   ran (mapping (snd (lookups (\<lambda>_. ''u'') new_FilenameMap [''a'', ''b'', ''a'']))) \<subseteq>
     fset (used (snd (lookups (\<lambda>_. ''u'') new_FilenameMap [''a'', ''b'', ''a''])))"
proof -
  have f: "fst (lookups (\<lambda>_. ''u'') new_FilenameMap [''a'', ''b'', ''a'']) = [''u'', ''u-2'', ''u'']"
    by (simp add: getitem_def new_FilenameMap_def find_slug.simps numbered_def str_nat.simps
        digit_def Let_def)
  note t = slug_injective
    [of "\<lambda>_. ''u''" "[''a'', ''b'', ''a'']"
        "fst (lookups (\<lambda>_. ''u'') new_FilenameMap [''a'', ''b'', ''a''])"
        "snd (lookups (\<lambda>_. ''u'') new_FilenameMap [''a'', ''b'', ''a''])" 0 1]
  from t f show ?thesis by simp
qed

section \<open>Properties of the paths of the pages\<close>

lemma split_sep_no_sep: "w \<in> set (split_sep s) \<Longrightarrow> CHR ''/'' \<notin> set w"
proof (induction s arbitrary: w)
  case Nil
  then show ?case by simp
next
  case (Cons c cs)
  show ?case
  proof (cases "c = CHR ''/''")
    case True
    with Cons show ?thesis by auto
  next
    case False
    show ?thesis
    proof (cases "split_sep cs")
      case Nil
      with False Cons.prems show ?thesis by simp
    next
      case (Cons v vs)
      with False Cons.prems have "w = c # v \<or> w \<in> set vs" by simp
      moreover have "CHR ''/'' \<notin> set v" "\<And>x. x \<in> set vs \<Longrightarrow> CHR ''/'' \<notin> set x"
        using Cons.IH Cons by simp_all
      ultimately show ?thesis using False by auto
    qed
  qed
qed

lemma parse_path_no_sep: "w \<in> set (tail (parse_path s)) \<Longrightarrow> CHR ''/'' \<notin> set w"
  by (auto simp: parse_path_def split: prod.splits dest: split_sep_no_sep)

lemma joinpath_no_sep:
  assumes "\<And>w. w \<in> set (tail p) \<Longrightarrow> CHR ''/'' \<notin> set w"
    and "w \<in> set (tail (joinpath p key))"
  shows "CHR ''/'' \<notin> set w"
  using assms by (auto simp: joinpath_def dest: parse_path_no_sep split: if_splits)

lemma generate_markdown_path_no_sep:
  assumes "w \<in> set (tail (generate_markdown_path province university_name archived))"
  shows "CHR ''/'' \<notin> set w"
proof -
  have 0: "\<And>w. w \<in> set (tail SITE_DIR) \<Longrightarrow> CHR ''/'' \<notin> set w"
    unfolding SITE_DIR_def by (rule parse_path_no_sep)
  have 1: "\<And>w. w \<in> set (tail (joinpath SITE_DIR ''content'')) \<Longrightarrow> CHR ''/'' \<notin> set w"
    using 0 by (rule joinpath_no_sep)
  have 2: "\<And>w. w \<in> set (tail (joinpath (joinpath SITE_DIR ''content'') ''docs'')) \<Longrightarrow>
             CHR ''/'' \<notin> set w"
    using 1 by (rule joinpath_no_sep)
  define base where "base =
     (if archived then joinpath (joinpath (joinpath SITE_DIR ''content'') ''docs'') ''archived''
      else joinpath (joinpath SITE_DIR ''content'') ''docs'')"
  have 3: "\<And>w. w \<in> set (tail base) \<Longrightarrow> CHR ''/'' \<notin> set w"
  proof (cases archived)
    case True
    fix w
    assume "w \<in> set (tail base)"
    with True
    have "w \<in> set (tail (joinpath (joinpath (joinpath SITE_DIR ''content'') ''docs'') ''archived''))"
      by (simp add: base_def)
    with 2 show "CHR ''/'' \<notin> set w" by (rule joinpath_no_sep)
  next
    case False
    fix w
    assume "w \<in> set (tail base)"
    with False 2 show "CHR ''/'' \<notin> set w" by (simp add: base_def)
  qed
  have 4: "\<And>w. w \<in> set (tail (joinpath base ''universities'')) \<Longrightarrow> CHR ''/'' \<notin> set w"
    using 3 by (rule joinpath_no_sep)
  have 5: "\<And>w. w \<in> set (tail (joinpath (joinpath base ''universities'') province)) \<Longrightarrow>
             CHR ''/'' \<notin> set w"
    using 4 by (rule joinpath_no_sep)
  have "generate_markdown_path province university_name archived =
        joinpath (joinpath (joinpath base ''universities'') province) (university_name @ ''.md'')"
    by (simp add: generate_markdown_path_def base_def Let_def)
  with assms
  have "w \<in> set (tail (joinpath (joinpath (joinpath base ''universities'') province)
                    (university_name @ ''.md'')))"
    by simp
  with 5 show ?thesis by (rule joinpath_no_sep)
qed

lemma path_stem_subset: "set (path_stem p) \<subseteq> set (path_name p)"
  by (auto simp: path_stem_def Let_def dest: in_set_takeD)

lemma path_name_no_sep:
  assumes "\<And>w. w \<in> set (tail p) \<Longrightarrow> CHR ''/'' \<notin> set w"
  shows "CHR ''/'' \<notin> set (path_name p)"
  using assms by (auto simp: path_name_def)

lemma SITE_DIR_value:
  "SITE_DIR =
     \<lparr>root = [],
      tail = [''D:'' @ [CHR 0x5C] @ ''Project'' @ [CHR 0x5C] @ ''questionnaire-report-theme'']\<rparr>"
  by (simp add: SITE_DIR_def parse_path_def splitroot_def)

text \<open>
  C4, on the code: the text that \<open>write_markdown_for_universities\<close> hands to
  \<open>sanitize_filename\<close> is the stem of the last component of the path, and a component
  of a path never has a \<open>/\<close> in it. For the name \<open>A/B\<close> (no colleges, not archived) the
  path ends with the directory \<open>A\<close> and the file \<open>B.md\<close>, nothing is replaced and no line
  is printed. The slug is \<open>slugify\<close> of the name without its \<open>/\<close>.
\<close>

theorem slash_never_sanitized:
  "CHR ''/'' \<notin> set (path_stem (generate_markdown_path province name archived)) \<and>
   prepare_task slugify [] False new_FilenameMap (''A/B'', uni) =
     Inr ([],
          (''A/B'', uni, slugify ''AB'',
           \<lparr>root = [],
            tail = [''D:'' @ [CHR 0x5C] @ ''Project'' @ [CHR 0x5C] @ ''questionnaire-report-theme'',
                    ''content'', ''docs'', ''universities'',
                    [CHR 0xE5, CHR 0x85, CHR 0xB6, CHR 0xE4, CHR 0xBB, CHR 0x96],
                    ''A'', ''B.md'']\<rparr>),
          \<lparr>mapping = [''A/B'' \<mapsto> slugify ''AB''], used = {|slugify ''AB''|}\<rparr>)"
proof -
  have g: "CHR ''/'' \<notin> set (path_stem (generate_markdown_path province name archived))"
  proof -
    have "CHR ''/'' \<notin> set (path_name (generate_markdown_path province name archived))"
      by (rule path_name_no_sep) (rule generate_markdown_path_no_sep)
    with path_stem_subset [of "generate_markdown_path province name archived"]
    show ?thesis by blast
  qed
  have t: "generate_markdown_path
             [CHR 0xE5, CHR 0x85, CHR 0xB6, CHR 0xE4, CHR 0xBB, CHR 0x96] ''A/B'' False =
           \<lparr>root = [],
            tail = [''D:'' @ [CHR 0x5C] @ ''Project'' @ [CHR 0x5C] @ ''questionnaire-report-theme'',
                    ''content'', ''docs'', ''universities'',
                    [CHR 0xE5, CHR 0x85, CHR 0xB6, CHR 0xE4, CHR 0xBB, CHR 0x96],
                    ''A'', ''B.md'']\<rparr>"
    by (simp add: generate_markdown_path_def SITE_DIR_value joinpath_def parse_path_def
        splitroot_def Let_def)
  have i: "getitem slugify new_FilenameMap ''A/B'' =
             (slugify ''AB'', \<lparr>mapping = [''A/B'' \<mapsto> slugify ''AB''], used = {|slugify ''AB''|}\<rparr>)"
    by (simp add: getitem_def new_FilenameMap_def FILENAME_PREPROCESS_sub_def find_slug.simps
        Let_def)
  have "prepare_task slugify [] False new_FilenameMap (''A/B'', uni) =
     Inr ([],
          (''A/B'', uni, slugify ''AB'',
           \<lparr>root = [],
            tail = [''D:'' @ [CHR 0x5C] @ ''Project'' @ [CHR 0x5C] @ ''questionnaire-report-theme'',
                    ''content'', ''docs'', ''universities'',
                    [CHR 0xE5, CHR 0x85, CHR 0xB6, CHR 0xE4, CHR 0xBB, CHR 0x96],
                    ''A'', ''B.md'']\<rparr>),
          \<lparr>mapping = [''A/B'' \<mapsto> slugify ''AB''], used = {|slugify ''AB''|}\<rparr>)"
    by (simp add: prepare_task_def i t path_stem_def path_name_def rfind_def
        sanitize_filename_def illegal_pattern_def Let_def)
  with g show ?thesis by simp
qed

text \<open>
  For comparison, the name \<open>A?B\<close>: the question mark is replaced in the file name, and
  the line is printed with the path before the replacement.
\<close>

lemma question_mark_sanitized:
  "prepare_task slugify [] False new_FilenameMap (''A?B'', uni) =
     Inr ([''[error] '' @
           (''D:'' @ [CHR 0x5C] @ ''Project'' @ [CHR 0x5C] @ ''questionnaire-report-theme'') @
           ''/content/docs/universities/'' @
           [CHR 0xE5, CHR 0x85, CHR 0xB6, CHR 0xE4, CHR 0xBB, CHR 0x96] @ ''/A?B.md '' @
           [CHR 0xE6, CHR 0x96, CHR 0x87, CHR 0xE4, CHR 0xBB, CHR 0xB6,
            CHR 0xE5, CHR 0x90, CHR 0x8D, CHR 0xE5, CHR 0x8F, CHR 0xAF,
            CHR 0xE8, CHR 0x83, CHR 0xBD, CHR 0xE9, CHR 0x9D, CHR 0x9E,
            CHR 0xE6, CHR 0xB3, CHR 0x95, CHR 0xEF, CHR 0xBC, CHR 0x81]],
          (''A?B'', uni, slugify ''A?B'',
           \<lparr>root = [],
            tail = [''D:'' @ [CHR 0x5C] @ ''Project'' @ [CHR 0x5C] @ ''questionnaire-report-theme'',
                    ''content'', ''docs'', ''universities'',
                    [CHR 0xE5, CHR 0x85, CHR 0xB6, CHR 0xE4, CHR 0xBB, CHR 0x96],
                    ''A_B.md'']\<rparr>),
          \<lparr>mapping = [''A?B'' \<mapsto> slugify ''A?B''], used = {|slugify ''A?B''|}\<rparr>)"
proof -
  have t: "generate_markdown_path
             [CHR 0xE5, CHR 0x85, CHR 0xB6, CHR 0xE4, CHR 0xBB, CHR 0x96] ''A?B'' False =
           \<lparr>root = [],
            tail = [''D:'' @ [CHR 0x5C] @ ''Project'' @ [CHR 0x5C] @ ''questionnaire-report-theme'',
                    ''content'', ''docs'', ''universities'',
                    [CHR 0xE5, CHR 0x85, CHR 0xB6, CHR 0xE4, CHR 0xBB, CHR 0x96],
                    ''A?B.md'']\<rparr>"
    by (simp add: generate_markdown_path_def SITE_DIR_value joinpath_def parse_path_def
        splitroot_def Let_def)
  have i: "getitem slugify new_FilenameMap ''A?B'' =
             (slugify ''A?B'', \<lparr>mapping = [''A?B'' \<mapsto> slugify ''A?B''], used = {|slugify ''A?B''|}\<rparr>)"
    by (simp add: getitem_def new_FilenameMap_def FILENAME_PREPROCESS_sub_def find_slug.simps
        Let_def)
  show ?thesis
    by (simp add: prepare_task_def i t path_stem_def path_suffix_def path_name_def rfind_def
        sanitize_filename_def illegal_pattern_def with_stem_def with_name_def str_path_def
        Let_def)
qed

section \<open>Every entry of the registry becomes a task\<close>

lemma split_sep_plain: "CHR ''/'' \<notin> set t \<Longrightarrow> split_sep t = [t]"
  by (induction t) auto

lemma split_sep_last_piece:
  assumes "CHR ''/'' \<notin> set t"
  shows "\<exists>p. p @ t \<in> set (split_sep (s @ t))"
proof (induction s)
  case Nil
  have "[] @ t \<in> set (split_sep ([] @ t))" using assms by (simp add: split_sep_plain)
  then show ?case by blast
next
  case (Cons c cs)
  then obtain p where p: "p @ t \<in> set (split_sep (cs @ t))" by blast
  show ?case
  proof (cases "c = CHR ''/''")
    case True
    with p have "p @ t \<in> set (split_sep ((c # cs) @ t))" by simp
    then show ?thesis by blast
  next
    case False
    from p obtain v vs where vs: "split_sep (cs @ t) = v # vs"
      by (cases "split_sep (cs @ t)") auto
    show ?thesis
    proof (cases "p @ t = v")
      case True
      with vs False have "(c # p) @ t \<in> set (split_sep ((c # cs) @ t))" by simp
      then show ?thesis by blast
    next
      case neq: False
      with p vs have "p @ t \<in> set vs" by simp
      with vs False have "p @ t \<in> set (split_sep ((c # cs) @ t))" by simp
      then show ?thesis by blast
    qed
  qed
qed

lemma splitroot_keeps_end: "\<exists>r. snd (splitroot (name @ ''.md'')) = r @ ''.md''"
proof (cases name)
  case Nil
  then show ?thesis by (simp add: splitroot_def)
next
  case (Cons c cs)
  show ?thesis
  proof (cases cs)
    case Nil
    with Cons show ?thesis by (auto simp: splitroot_def)
  next
    case (Cons d ds)
    with \<open>name = c # cs\<close> show ?thesis by (auto simp: splitroot_def)
  qed
qed

lemma parse_path_md_tail: "tail (parse_path (name @ ''.md'')) \<noteq> []"
proof -
  obtain r where r: "snd (splitroot (name @ ''.md'')) = r @ ''.md''"
    using splitroot_keeps_end by blast
  have "CHR ''/'' \<notin> set ''.md''" by simp
  from split_sep_last_piece [OF this, of r]
  obtain p where p: "p @ ''.md'' \<in> set (split_sep (r @ ''.md''))" by blast
  have "p @ ''.md'' \<noteq> [] \<and> p @ ''.md'' \<noteq> ''.''" by (cases p) auto
  moreover from r obtain x where "splitroot (name @ ''.md'') = (x, r @ ''.md'')"
    by (cases "splitroot (name @ ''.md'')") auto
  ultimately have "p @ ''.md'' \<in> set (tail (parse_path (name @ ''.md'')))"
    using p by (simp add: parse_path_def)
  then show ?thesis by auto
qed

lemma parse_path_components: "w \<in> set (tail (parse_path s)) \<Longrightarrow> w \<noteq> []"
  by (auto simp: parse_path_def split: prod.splits)

lemma path_name_generate_markdown_path:
  "path_name (generate_markdown_path province university_name archived) \<noteq> []"
proof -
  define key where "key = university_name @ ''.md''"
  obtain p where g: "generate_markdown_path province university_name archived = joinpath p key"
    by (simp add: generate_markdown_path_def Let_def key_def)
  have ne: "tail (parse_path key) \<noteq> []" unfolding key_def by (rule parse_path_md_tail)
  then have "last (tail (parse_path key)) \<noteq> []"
    using parse_path_components [of "last (tail (parse_path key))" key] by simp
  with ne show ?thesis by (simp add: g joinpath_def path_name_def)
qed

lemma path_suffix_subset: "set (path_suffix p) \<subseteq> set (path_name p)"
  by (auto simp: path_suffix_def Let_def dest: in_set_dropD)

lemma sanitize_filename_changed:
  assumes "sanitize_filename stem = (cleaned, True)"
  shows "cleaned \<noteq> [] \<and> CHR ''/'' \<notin> set cleaned \<and> cleaned \<noteq> ''.''"
proof -
  from assms have c: "cleaned = map (\<lambda>c. if c \<in> illegal_pattern then CHR ''_'' else c) stem"
    and ne: "cleaned \<noteq> stem"
    by (auto simp: sanitize_filename_def Let_def)
  from c ne have 1: "cleaned \<noteq> []" by auto
  have 2: "CHR ''/'' \<notin> set cleaned" unfolding c by (auto simp: illegal_pattern_def)
  have 3: "cleaned \<noteq> ''.''"
  proof
    assume d: "cleaned = ''.''"
    with c obtain x where x: "stem = [x]" "(if x \<in> illegal_pattern then CHR ''_'' else x) = CHR ''.''"
      by (cases stem) auto
    then have "x = CHR ''.''" by (auto split: if_splits)
    with x d ne show False by simp
  qed
  from 1 2 3 show ?thesis by simp
qed

lemma prepare_task_total:
  "\<exists>out slug target filename_map'.
     prepare_task slugify colleges archived filename_map (name, uni) =
       Inr (out, (name, uni, slug, target), filename_map')"
proof -
  define target where
    "target = generate_markdown_path (find_province name colleges) name archived"
  obtain slug fm1 where g: "getitem slugify filename_map name = (slug, fm1)"
    by (cases "getitem slugify filename_map name")
  obtain cleaned is_illegal where s: "sanitize_filename (path_stem target) = (cleaned, is_illegal)"
    by (cases "sanitize_filename (path_stem target)")
  show ?thesis
  proof (cases is_illegal)
    case False
    with g s show ?thesis by (simp add: prepare_task_def target_def Let_def)
  next
    case True
    with s sanitize_filename_changed [of "path_stem target" cleaned]
    have cl: "cleaned \<noteq> []" "CHR ''/'' \<notin> set cleaned" "cleaned \<noteq> ''.''" by simp_all
    have pn: "path_name target \<noteq> []"
      unfolding target_def by (rule path_name_generate_markdown_path)
    have "CHR ''/'' \<notin> set (path_name target)"
      unfolding target_def by (rule path_name_no_sep) (rule generate_markdown_path_no_sep)
    with path_suffix_subset [of target] have sf: "CHR ''/'' \<notin> set (path_suffix target)" by blast
    have dot: "cleaned @ path_suffix target \<noteq> ''.''"
      using cl(1,3) by (cases cleaned) auto
    have "with_stem target cleaned =
            Inr (target\<lparr>tail := butlast (tail target) @ [cleaned @ path_suffix target]\<rparr>)"
      using pn cl sf dot by (simp add: with_stem_def with_name_def)
    with g s True show ?thesis by (simp add: prepare_task_def target_def Let_def)
  qed
qed

lemma prepare_tasks_total:
  "\<exists>out tasks filename_map'.
     prepare_tasks slugify colleges archived filename_map universities =
       Inr (out, tasks, filename_map') \<and>
     map task_entry tasks = universities"
proof (induction universities arbitrary: filename_map)
  case Nil
  then show ?case by simp
next
  case (Cons entry universities)
  obtain name uni where e: "entry = (name, uni)" by (cases entry)
  from prepare_task_total [of slugify colleges archived filename_map name uni]
  obtain out slug target fm1 where
    t: "prepare_task slugify colleges archived filename_map (name, uni) =
          Inr (out, (name, uni, slug, target), fm1)"
    by blast
  from Cons.IH [of fm1] obtain out' tasks fm2 where
    r: "prepare_tasks slugify colleges archived fm1 universities = Inr (out', tasks, fm2)"
      "map task_entry tasks = universities"
    by blast
  have "prepare_tasks slugify colleges archived filename_map (entry # universities) =
          Inr (out @ out', (name, uni, slug, target) # tasks, fm2)"
    by (simp add: e t r(1))
  moreover have "task_entry (name, uni, slug, target) = (name, uni)"
    by (simp add: task_entry_def)
  then have "map task_entry ((name, uni, slug, target) # tasks) = entry # universities"
    using r(2) e by simp
  ultimately show ?case by simp
qed

section \<open>Properties of process\_universities\<close>

lemma delete_as_filter: "AList.delete a us = [(k, v) \<leftarrow> us. k \<noteq> a]"
  by (induction us) (auto simp: AList.delete_eq)

lemma pop_with_default:
  "pop universities key (Some None) = Inr (map_of universities key, AList.delete key universities)"
proof (cases "map_of universities key")
  case None
  then have "key \<notin> fst ` set universities" by (simp add: map_of_eq_None_iff)
  with None show ?thesis by (simp add: pop_def)
next
  case (Some uni)
  then show ?thesis by (simp add: pop_def)
qed

lemma blacklist_lines_filter:
  "blacklist_lines universities entries = Inr [(k, v) \<leftarrow> universities. k \<notin> set entries]"
proof (induction entries arbitrary: universities)
  case Nil
  then show ?case by simp
next
  case (Cons entry entries)
  have "[(k, v) \<leftarrow> AList.delete entry universities. k \<notin> set entries] =
        [(k, v) \<leftarrow> universities. k \<notin> set (entry # entries)]"
    by (induction universities) (auto simp: delete_as_filter)
  with Cons.IH [of "AList.delete entry universities"] show ?case
    by (simp add: pop_with_default)
qed

text \<open>
  C7: \<open>universities.pop(entry, None)\<close> never raises. For an entry that is not a key it
  returns the registry as it is; for a key it removes that key and leaves every other
  entry. The loop over the blacklist never raises either: it removes the entries that
  are keys and keeps the others in their order, running it again on its result changes
  nothing, and a blacklist with no key of the registry leaves the registry unchanged.
\<close>

theorem blacklist_removal:
  "(key \<notin> fst ` set universities \<longrightarrow>
      pop universities key (Some None) = Inr (None, universities)) \<and>
   (key \<in> fst ` set universities \<longrightarrow>
      (\<exists>popped. pop universities key (Some None) =
                  Inr (popped, [(k, v) \<leftarrow> universities. k \<noteq> key])) \<and>
      key \<notin> fst ` set [(k, v) \<leftarrow> universities. k \<noteq> key]) \<and>
   blacklist_lines universities entries = Inr [(k, v) \<leftarrow> universities. k \<notin> set entries] \<and>
   blacklist_lines [(k, v) \<leftarrow> universities. k \<notin> set entries] entries =
     Inr [(k, v) \<leftarrow> universities. k \<notin> set entries] \<and>
   (set entries \<inter> fst ` set universities = {} \<longrightarrow>
      blacklist_lines universities entries = Inr universities)"
proof -
  have 1: "key \<notin> fst ` set universities \<longrightarrow>
      pop universities key (Some None) = Inr (None, universities)"
    by (simp add: pop_with_default map_of_eq_None_iff)
  have 2: "key \<in> fst ` set universities \<longrightarrow>
      (\<exists>popped. pop universities key (Some None) =
                  Inr (popped, [(k, v) \<leftarrow> universities. k \<noteq> key])) \<and>
      key \<notin> fst ` set [(k, v) \<leftarrow> universities. k \<noteq> key]"
    by (auto simp: pop_with_default delete_as_filter)
  have 3: "blacklist_lines universities entries =
      Inr [(k, v) \<leftarrow> universities. k \<notin> set entries]"
    by (rule blacklist_lines_filter)
  have 4: "blacklist_lines [(k, v) \<leftarrow> universities. k \<notin> set entries] entries =
     Inr [(k, v) \<leftarrow> universities. k \<notin> set entries]"
    by (simp add: blacklist_lines_filter case_prod_unfold)
  have "set entries \<inter> fst ` set universities = {} \<Longrightarrow>
      [(k, v) \<leftarrow> universities. k \<notin> set entries] = universities"
    by (rule filter_True) (force simp: disjoint_iff)
  then have 5: "set entries \<inter> fst ` set universities = {} \<longrightarrow>
      blacklist_lines universities entries = Inr universities"
    by (simp add: blacklist_lines_filter)
  from 1 2 3 4 5 show ?thesis by blast
qed

text \<open>
  A registry with the keys \<open>A\<close> and \<open>B\<close>: the entry \<open>C\<close> changes nothing, the entry \<open>A\<close>
  removes \<open>A\<close>, and a second \<open>A\<close> in the blacklist does no harm.
\<close>

theorem blacklist_removal_witness:
  "pop [(''A'', new_University), (''B'', new_University)] ''C'' (Some None) =
     Inr (None, [(''A'', new_University), (''B'', new_University)]) \<and>
   pop [(''A'', new_University), (''B'', new_University)] ''A'' (Some None) =
     Inr (Some new_University, [(''B'', new_University)]) \<and>
   blacklist_lines [(''A'', new_University), (''B'', new_University)] [''A'', ''C'', ''A''] =
     Inr [(''B'', new_University)] \<and>
   blacklist_lines [(''A'', new_University), (''B'', new_University)] [''C''] =
     Inr [(''A'', new_University), (''B'', new_University)]"
  using blacklist_removal
    [of "''C''" "[(''A'', new_University), (''B'', new_University)]" "[''A'', ''C'', ''A'']"]
    blacklist_removal
    [of "''A''" "[(''A'', new_University), (''B'', new_University)]" "[''C'']"]
  by (simp add: pop_def AList.delete_eq)

lemma scan_names_entries:
  assumes "distinct (map fst universities)" and "set entries \<subseteq> set universities"
  shows "scan_names whitelist universities (map fst entries) =
           Inr (map (\<lambda>(name, uni). maybe_invalid name uni)
                  [(name, uni) \<leftarrow> entries. \<not> NORMAL_NAME_MATCHER_search name \<and> name \<notin> whitelist])"
  using assms(2)
proof (induction entries)
  case Nil
  then show ?case by simp
next
  case (Cons entry entries)
  obtain name uni where e: "entry = (name, uni)" by (cases entry)
  with Cons.prems have "(name, uni) \<in> set universities" by simp
  with assms(1) have m: "map_of universities name = Some uni" by (rule map_of_is_SomeI)
  from Cons have ih: "scan_names whitelist universities (map fst entries) =
           Inr (map (\<lambda>(name, uni). maybe_invalid name uni)
                  [(name, uni) \<leftarrow> entries. \<not> NORMAL_NAME_MATCHER_search name \<and> name \<notin> whitelist])"
    by simp
  show ?case by (simp add: e m ih)
qed

lemma filter_key_distinct:
  assumes "distinct (map fst us)" and "(name, uni) \<in> set us"
  shows "[(n, u) \<leftarrow> us. n = name] = [(name, uni)]"
  using assms
proof (induction us)
  case Nil
  then show ?case by simp
next
  case (Cons e us)
  obtain k v where e: "e = (k, v)" by (cases e)
  show ?case
  proof (cases "k = name")
    case True
    with Cons.prems e have "name \<notin> fst ` set us" by simp
    then have "[(n, u) \<leftarrow> us. n = name] = []"
      by (auto simp: filter_empty_conv image_iff)
    moreover from Cons.prems e True have "v = uni"
      by (auto simp: image_iff)
    ultimately show ?thesis using True e by simp
  next
    case False
    with Cons e show ?thesis by auto
  qed
qed

lemma merge_aliases_distinct:
  "distinct (map fst us) \<Longrightarrow> merge_aliases name aliases (p, us) = Inr (p', us') \<Longrightarrow>
     distinct (map fst us')"
proof (induction aliases arbitrary: p us)
  case Nil
  then show ?case by simp
next
  case (Cons a aliases)
  show ?case
  proof (cases "map_of us a")
    case None
    with Cons show ?thesis by simp
  next
    case (Some other)
    show ?thesis
    proof (cases "combine_from p other")
      case (Inl e)
      with Some Cons.prems show ?thesis by simp
    next
      case (Inr p1)
      have "distinct (map fst (AList.delete a (AList.map_entry name (\<lambda>_. p1) us)))"
        using Cons.prems(1) by (simp add: distinct_delete distinct_map_entry)
      moreover have "merge_aliases name aliases
          (p1, AList.delete a (AList.map_entry name (\<lambda>_. p1) us)) = Inr (p', us')"
        using Cons.prems(2) Some Inr by simp
      ultimately show ?thesis by (rule Cons.IH)
    qed
  qed
qed

lemma alias_lines_distinct:
  "distinct (map fst us) \<Longrightarrow> alias_lines us lines = Inr (out, us') \<Longrightarrow> distinct (map fst us')"
proof (induction lines arbitrary: us out)
  case Nil
  then show ?case by simp
next
  case (Cons line lines)
  from Cons.prems(2) obtain o1 us1 o2 where
    l: "alias_line us line = Inr (o1, us1)" and r: "alias_lines us1 lines = Inr (o2, us')"
    by (auto split: sum.splits)
  obtain name aliases where ln: "line = (name, aliases)" by (cases line)
  have "distinct (map fst us1)"
  proof (cases "map_of us name")
    case None
    with l ln Cons.prems(1) show ?thesis by (simp add: alias_line_def)
  next
    case (Some p)
    with l ln obtain p' where "merge_aliases name aliases (p, us) = Inr (p', us1)"
      by (auto simp: alias_line_def split: sum.splits)
    with Cons.prems(1) show ?thesis by (rule merge_aliases_distinct)
  qed
  then show ?case using r by (rule Cons.IH)
qed

text \<open>
  C6: let the first two phases of \<open>process_universities\<close> end with the registry
  \<open>universities2\<close>. Then \<open>process_universities\<close> returns this very registry, and the
  last phase prints one line \<open>maybe_invalid name uni\<close> (the name and the answer ids of
  its credits) for each entry whose name matches none of the three words and is not in
  the whitelist, in the order of the registry, and nothing else: among the entries
  reported, each such key stands exactly once and no other key at all. The first loop
  of \<open>write_markdown_for_universities\<close> on this registry returns, and it makes one
  task for each entry, in the order of the registry, with the name and the aggregate of
  the entry: an entry that was reported is written like any other.
\<close>

theorem anomaly_scan_frame:
  assumes "distinct (map fst universities)"
    and "alias_phase alias_file universities = Inr (out1, universities1)"
    and "blacklist_phase blacklist_file universities1 = Inr universities2"
  shows "process_universities alias_file blacklist_file whitelist universities =
           Inr (out1 @ map (\<lambda>(name, uni). maybe_invalid name uni)
                         [(name, uni) \<leftarrow> universities2.
                            \<not> NORMAL_NAME_MATCHER_search name \<and> name \<notin> whitelist],
                universities2) \<and>
         (\<forall>(name, uni) \<in> set universities2.
            [(n, u) \<leftarrow> [(name, uni) \<leftarrow> universities2.
                          \<not> NORMAL_NAME_MATCHER_search name \<and> name \<notin> whitelist]. n = name] =
            (if \<not> NORMAL_NAME_MATCHER_search name \<and> name \<notin> whitelist
             then [(name, uni)] else [])) \<and>
         (\<exists>out tasks filename_map'.
            prepare_tasks slugify colleges archived filename_map universities2 =
              Inr (out, tasks, filename_map') \<and>
            map task_entry tasks = universities2)"
proof -
  have d1: "distinct (map fst universities1)"
  proof (cases alias_file)
    case None
    with assms(1,2) show ?thesis by (simp add: alias_phase_def)
  next
    case (Some lines)
    with assms(2) have "alias_lines universities lines = Inr (out1, universities1)"
      by (simp add: alias_phase_def)
    with assms(1) show ?thesis by (rule alias_lines_distinct)
  qed
  have d2: "distinct (map fst universities2)"
  proof (cases blacklist_file)
    case None
    with assms(3) d1 show ?thesis by (simp add: blacklist_phase_def)
  next
    case (Some entries)
    with assms(3) have "universities2 = [(k, v) \<leftarrow> universities1. k \<notin> set entries]"
      by (simp add: blacklist_phase_def blacklist_lines_filter)
    with d1 show ?thesis by (simp add: distinct_map_filter)
  qed
  have scan: "scan_names whitelist universities2 (map fst universities2) =
           Inr (map (\<lambda>(name, uni). maybe_invalid name uni)
                  [(name, uni) \<leftarrow> universities2.
                     \<not> NORMAL_NAME_MATCHER_search name \<and> name \<notin> whitelist])"
    using d2 by (rule scan_names_entries) simp
  have a: "process_universities alias_file blacklist_file whitelist universities =
           Inr (out1 @ map (\<lambda>(name, uni). maybe_invalid name uni)
                         [(name, uni) \<leftarrow> universities2.
                            \<not> NORMAL_NAME_MATCHER_search name \<and> name \<notin> whitelist],
                universities2)"
    by (simp add: process_universities_def assms(2,3) scan)
  have b: "[(n, u) \<leftarrow> [(name, uni) \<leftarrow> universities2.
                          \<not> NORMAL_NAME_MATCHER_search name \<and> name \<notin> whitelist]. n = name] =
            (if \<not> NORMAL_NAME_MATCHER_search name \<and> name \<notin> whitelist
             then [(name, uni)] else [])"
    if "(name, uni) \<in> set universities2" for name uni
  proof -
    let ?F = "\<lambda>(name, uni). \<not> NORMAL_NAME_MATCHER_search name \<and> name \<notin> whitelist"
    have "[(n, u) \<leftarrow> filter ?F universities2. n = name] =
          filter ?F [(n, u) \<leftarrow> universities2. n = name]"
      by (simp add: conj_commute)
    also have "\<dots> = filter ?F [(name, uni)]"
      using d2 that by (simp only: filter_key_distinct)
    finally show ?thesis by simp
  qed
  note c = prepare_tasks_total [of slugify colleges archived filename_map universities2]
  from a b c show ?thesis by blast
qed

text \<open>
  A registry of three entries: a name with the word for university, the name \<open>abc\<close>
  with the credits of the answers 3 and 4, and the name \<open>gone\<close>, which the blacklist
  removes. One line is printed, for \<open>abc\<close>, and \<open>abc\<close> is still in the registry and has
  its task.
\<close>

theorem anomaly_scan_frame_witness:
  "process_universities None (Some [''gone'']) {''ok''}
     [([CHR 0xE5, CHR 0xA4, CHR 0xA7, CHR 0xE5, CHR 0xAD, CHR 0xA6],
       new_University\<lparr>credits := [\<lparr>answer_id = 1, content = ''a''\<rparr>]\<rparr>),
      (''abc'',
       new_University\<lparr>credits := [\<lparr>answer_id = 3, content = ''b''\<rparr>,
                                  \<lparr>answer_id = 4, content = ''c''\<rparr>]\<rparr>),
      (''gone'', new_University)]
   = Inr ([''[warn] maybe invalid: abc A3,A4''],
          [([CHR 0xE5, CHR 0xA4, CHR 0xA7, CHR 0xE5, CHR 0xAD, CHR 0xA6],
            new_University\<lparr>credits := [\<lparr>answer_id = 1, content = ''a''\<rparr>]\<rparr>),
           (''abc'',
            new_University\<lparr>credits := [\<lparr>answer_id = 3, content = ''b''\<rparr>,
                                       \<lparr>answer_id = 4, content = ''c''\<rparr>]\<rparr>)]) \<and>
   (\<exists>out tasks filename_map'.
      prepare_tasks (\<lambda>s. s) [] False new_FilenameMap
        [([CHR 0xE5, CHR 0xA4, CHR 0xA7, CHR 0xE5, CHR 0xAD, CHR 0xA6],
          new_University\<lparr>credits := [\<lparr>answer_id = 1, content = ''a''\<rparr>]\<rparr>),
         (''abc'',
          new_University\<lparr>credits := [\<lparr>answer_id = 3, content = ''b''\<rparr>,
                                     \<lparr>answer_id = 4, content = ''c''\<rparr>]\<rparr>)]
        = Inr (out, tasks, filename_map') \<and>
      map task_entry tasks =
        [([CHR 0xE5, CHR 0xA4, CHR 0xA7, CHR 0xE5, CHR 0xAD, CHR 0xA6],
          new_University\<lparr>credits := [\<lparr>answer_id = 1, content = ''a''\<rparr>]\<rparr>),
         (''abc'',
          new_University\<lparr>credits := [\<lparr>answer_id = 3, content = ''b''\<rparr>,
                                     \<lparr>answer_id = 4, content = ''c''\<rparr>]\<rparr>)])"
proof -
  let ?u1 = "new_University\<lparr>credits := [\<lparr>answer_id = 1, content = ''a''\<rparr>]\<rparr>"
  let ?u2 = "new_University\<lparr>credits := [\<lparr>answer_id = 3, content = ''b''\<rparr>,
                                       \<lparr>answer_id = 4, content = ''c''\<rparr>]\<rparr>"
  let ?n1 = "[CHR 0xE5, CHR 0xA4, CHR 0xA7, CHR 0xE5, CHR 0xAD, CHR 0xA6]"
  let ?U = "[(?n1, ?u1), (''abc'', ?u2), (''gone'', new_University)]"
  let ?U2 = "[(?n1, ?u1), (''abc'', ?u2)]"
  have d: "distinct (map fst ?U)" by simp
  have a: "alias_phase None ?U = Inr ([], ?U)" by (simp add: alias_phase_def)
  have b: "blacklist_phase (Some [''gone'']) ?U = Inr ?U2"
    by (simp add: blacklist_phase_def pop_def AList.delete_eq)
  have s1: "NORMAL_NAME_MATCHER_search ?n1" by (simp add: NORMAL_NAME_MATCHER_search_def)
  have s2: "\<not> NORMAL_NAME_MATCHER_search ''abc''" by (simp add: NORMAL_NAME_MATCHER_search_def)
  have m: "maybe_invalid ''abc'' ?u2 = ''[warn] maybe invalid: abc A3,A4''"
    by (simp add: maybe_invalid_def str_int_def str_nat.simps digit_def)
  note t = anomaly_scan_frame
    [OF d a b, of "{''ok''}" "\<lambda>s. s" "[]" False new_FilenameMap]
  from t s1 s2 m have 1: "process_universities None (Some [''gone'']) {''ok''} ?U =
      Inr ([''[warn] maybe invalid: abc A3,A4''], ?U2)"
    by simp
  from t have 2: "\<exists>out tasks filename_map'.
      prepare_tasks (\<lambda>s. s) [] False new_FilenameMap ?U2 = Inr (out, tasks, filename_map') \<and>
      map task_entry tasks = ?U2"
    by blast
  from 1 2 show ?thesis by blast
qed

lemma remdups_snoc: "remdups (xs @ [a]) = [x \<leftarrow> remdups xs. x \<noteq> a] @ [a]"
  by (induction xs) auto

lemma first_occurrences_Cons:
  "rev (remdups (rev (a # as))) = a # [x \<leftarrow> rev (remdups (rev as)). x \<noteq> a]"
  by (simp add: remdups_snoc rev_filter)

lemma merged_aliases_eq:
  "merged_aliases keys as = [a \<leftarrow> rev (remdups (rev as)). a \<in> keys]"
proof (induction as arbitrary: keys)
  case Nil
  then show ?case by simp
next
  case (Cons a as)
  show ?case
  proof (cases "a \<in> keys")
    case True
    have "[x \<leftarrow> rev (remdups (rev as)). x \<in> keys - {a}] =
          [x \<leftarrow> [x \<leftarrow> rev (remdups (rev as)). x \<noteq> a]. x \<in> keys]"
      by (simp add: conj_commute)
    with True Cons.IH [of "keys - {a}"] show ?thesis
      by (simp only: merged_aliases.simps first_occurrences_Cons if_True filter.simps)
  next
    case False
    have "[x \<leftarrow> [x \<leftarrow> rev (remdups (rev as)). x \<noteq> a]. x \<in> keys] =
          [x \<leftarrow> rev (remdups (rev as)). x \<in> keys]"
      using False by (auto intro: filter_cong)
    with False Cons.IH [of keys] show ?thesis
      by (simp only: merged_aliases.simps first_occurrences_Cons if_False filter.simps)
  qed
qed

lemma set_merged_aliases: "set (merged_aliases keys as) \<subseteq> keys \<inter> set as"
  by (induction as arbitrary: keys) auto

lemma with_primary_absent: "name \<notin> fst ` set us \<Longrightarrow> with_primary name q us = us"
  unfolding with_primary_def by (intro map_idI) force

lemma map_entry_with_primary:
  "distinct (map fst us) \<Longrightarrow> AList.map_entry name (\<lambda>_. q) us = with_primary name q us"
proof (induction us)
  case Nil
  then show ?case by (simp add: with_primary_def)
next
  case (Cons e us)
  obtain k v where e: "e = (k, v)" by (cases e)
  show ?case
  proof (cases "k = name")
    case True
    with Cons.prems e have "name \<notin> fst ` set us" by simp
    then have "with_primary name q us = us" by (rule with_primary_absent)
    then have "with_primary name q (e # us) = (name, q) # us"
      using True e by (simp add: with_primary_def)
    with True e show ?thesis by simp
  next
    case False
    with Cons e show ?thesis by (simp add: with_primary_def)
  qed
qed

lemma with_primary_step:
  "with_primary name Q [(k, v) \<leftarrow> AList.delete a (with_primary name q us). k \<notin> S] =
   with_primary name Q [(k, v) \<leftarrow> us. k \<notin> insert a S]"
  by (induction us) (auto simp: with_primary_def delete_as_filter split: if_splits)

lemma fst_with_primary: "map fst (with_primary name q us) = map fst us"
  by (induction us) (auto simp: with_primary_def)

lemma fst_delete_with_primary:
  "map fst (AList.delete a (with_primary name q us)) = [k \<leftarrow> map fst us. k \<noteq> a]"
  by (induction us) (auto simp: with_primary_def delete_as_filter split: if_splits)

lemma map_of_with_primary_other:
  "b \<noteq> name \<Longrightarrow> map_of (with_primary name q us) b = map_of us b"
  by (induction us) (auto simp: with_primary_def)

lemma map_of_with_primary_same:
  "name \<in> fst ` set us \<Longrightarrow> map_of (with_primary name q us) name = Some q"
  by (induction us) (auto simp: with_primary_def)

lemma snd_with_primary: "snd ` set (with_primary name q us) \<subseteq> insert q (snd ` set us)"
  by (auto simp: with_primary_def split: if_splits)

lemma foldl_merge_step_length:
  assumes "\<forall>u \<in> snd ` set us. length (answers u) = length (answers p)"
    and "distinct (map fst us)" and "set bs \<subseteq> fst ` set us"
  shows "length (answers (foldl (merge_step name us) p bs)) = length (answers p)"
  using assms(1,3)
proof (induction bs arbitrary: p)
  case Nil
  then show ?case by simp
next
  case (Cons b bs)
  from Cons.prems(2) obtain u where u: "(b, u) \<in> set us" by auto
  with assms(2) have m: "map_of us b = Some u" by (rule map_of_is_SomeI)
  from u Cons.prems(1) have lu: "length (answers u) = length (answers p)" by force
  have l1: "length (answers (merge_step name us p b)) = length (answers p)"
    by (simp add: merge_step_def combined_def m lu)
  from Cons.prems l1
  have "length (answers (foldl (merge_step name us) (merge_step name us p b) bs)) =
        length (answers (merge_step name us p b))"
    by (intro Cons.IH) simp_all
  with l1 show ?case by simp
qed

lemma merge_aliases_closed_form:
  assumes "distinct (map fst us)"
    and "\<forall>u \<in> snd ` set us. length (answers u) = length (answers p)"
    and "name \<in> fst ` set us \<longrightarrow> map_of us name = Some p"
  shows "merge_aliases name aliases (p, us) =
           Inr (foldl (merge_step name us) p (merged_aliases (fst ` set us) aliases),
                with_primary name
                  (foldl (merge_step name us) p (merged_aliases (fst ` set us) aliases))
                  [(k, v) \<leftarrow> us. k \<notin> set aliases])"
  using assms
proof (induction aliases arbitrary: p us)
  case Nil
  have "with_primary name p us = us"
  proof (cases "name \<in> fst ` set us")
    case True
    with Nil.prems(3) have "map_of us name = Some p" by simp
    with Nil.prems(1) have "\<And>k v. (k, v) \<in> set us \<Longrightarrow> k = name \<Longrightarrow> v = p"
      by (metis map_of_is_SomeI option.inject)
    then show ?thesis unfolding with_primary_def by (intro map_idI) auto
  next
    case False
    then show ?thesis by (rule with_primary_absent)
  qed
  then show ?case by simp
next
  case (Cons a aliases)
  show ?case
  proof (cases "map_of us a")
    case None
    then have na: "a \<notin> fst ` set us" by (simp add: map_of_eq_None_iff)
    then have "[(k, v) \<leftarrow> us. k \<notin> set (a # aliases)] = [(k, v) \<leftarrow> us. k \<notin> set aliases]"
      by (intro filter_cong) force+
    with None na Cons.IH [OF Cons.prems] show ?thesis by simp
  next
    case (Some other)
    then have mem: "(a, other) \<in> set us" by (rule map_of_SomeD)
    then have ka: "a \<in> fst ` set us" by force
    from mem Cons.prems(2) have lo: "length (answers other) = length (answers p)" by force
    define p1 where "p1 = combined p other"
    have cf: "combine_from p other = Inr p1"
      unfolding p1_def using lo by (simp add: combine_from_combined)
    have ms: "merge_step name us p a = p1"
    proof (cases "a = name")
      case True
      with Cons.prems(3) ka Some have "other = p" by simp
      with True show ?thesis by (simp add: merge_step_def p1_def)
    next
      case False
      with Some show ?thesis by (simp add: merge_step_def p1_def)
    qed
    have lp1: "length (answers p1) = length (answers p)"
      unfolding p1_def using lo by (simp add: combined_def)
    define us1 where "us1 = AList.delete a (with_primary name p1 us)"
    have step: "merge_aliases name (a # aliases) (p, us) = merge_aliases name aliases (p1, us1)"
      by (simp add: Some cf us1_def map_entry_with_primary [OF Cons.prems(1)])
    have d1: "distinct (map fst us1)"
      unfolding us1_def using Cons.prems(1) by (simp add: distinct_delete fst_with_primary)
    have keys1: "fst ` set us1 = fst ` set us - {a}"
    proof -
      have "fst ` set us1 = set (map fst us1)" by simp
      also have "map fst us1 = [k \<leftarrow> map fst us. k \<noteq> a]"
        unfolding us1_def by (rule fst_delete_with_primary)
      finally show ?thesis by auto
    qed
    have al1: "\<forall>u \<in> snd ` set us1. length (answers u) = length (answers p1)"
    proof
      fix u
      assume "u \<in> snd ` set us1"
      then have "u \<in> snd ` set (with_primary name p1 us)"
        unfolding us1_def delete_as_filter by auto
      with snd_with_primary [of name p1 us] have "u = p1 \<or> u \<in> snd ` set us" by auto
      with Cons.prems(2) lp1 show "length (answers u) = length (answers p1)" by auto
    qed
    have link1: "name \<in> fst ` set us1 \<longrightarrow> map_of us1 name = Some p1"
    proof
      assume "name \<in> fst ` set us1"
      with keys1 have n: "name \<in> fst ` set us" "name \<noteq> a" by auto
      then show "map_of us1 name = Some p1"
        unfolding us1_def by (simp add: map_of_with_primary_same)
    qed
    have other1: "map_of us1 b = map_of us b" if "b \<noteq> a" "b \<noteq> name" for b
      unfolding us1_def using that by (simp add: map_of_with_primary_other)
    let ?M = "merged_aliases (fst ` set us - {a}) aliases"
    have cong: "foldl (merge_step name us1) q ?M = foldl (merge_step name us) q ?M" for q
    proof (rule foldl_cong)
      fix acc b
      assume "b \<in> set ?M"
      with set_merged_aliases [of "fst ` set us - {a}" aliases] have "b \<noteq> a" by auto
      then show "merge_step name us1 acc b = merge_step name us acc b"
        by (cases "b = name") (simp_all add: merge_step_def other1)
    qed simp_all
    let ?P = "foldl (merge_step name us) p (merged_aliases (fst ` set us) (a # aliases))"
    have P: "?P = foldl (merge_step name us1) p1 (merged_aliases (fst ` set us1) aliases)"
      using ka by (simp add: ms keys1 cong)
    have "merge_aliases name aliases (p1, us1) =
            Inr (?P, with_primary name ?P [(k, v) \<leftarrow> us1. k \<notin> set aliases])"
      unfolding P by (rule Cons.IH [OF d1 al1 link1])
    moreover have "with_primary name ?P [(k, v) \<leftarrow> us1. k \<notin> set aliases] =
                   with_primary name ?P [(k, v) \<leftarrow> us. k \<notin> set (a # aliases)]"
      unfolding us1_def by (simp add: with_primary_step)
    ultimately show ?thesis using step by simp
  qed
qed

lemma foldl_combined_content:
  assumes "\<forall>q \<in> set qs. length (answers q) = length (answers p)"
  shows "length (answers (foldl combined p qs)) = length (answers p) \<and>
         credits (foldl combined p qs) = credits p @ concat (map credits qs) \<and>
         additional_answers (foldl combined p qs) =
           additional_answers p @ concat (map additional_answers qs) \<and>
         (\<forall>i < length (answers p).
            group_answers (answers (foldl combined p qs) ! i) =
              group_answers (answers p ! i) @
              concat (map (\<lambda>q. group_answers (answers q ! i)) qs))"
  using assms
proof (induction qs arbitrary: p)
  case Nil
  then show ?case by simp
next
  case (Cons q qs)
  from Cons.prems have lq: "length (answers q) = length (answers p)" by simp
  then have lc: "length (answers (combined p q)) = length (answers p)"
    by (simp add: combined_def)
  with Cons.prems have "\<forall>q' \<in> set qs. length (answers q') = length (answers (combined p q))"
    by simp
  note ih = Cons.IH [OF this]
  have bins: "group_answers (answers (combined p q) ! i) =
        group_answers (answers p ! i) @ group_answers (answers q ! i)"
    if "i < length (answers p)" for i
    using that lq by (simp add: combined_def group_extend_def)
  have c: "credits (combined p q) = credits p @ credits q"
    and a: "additional_answers (combined p q) = additional_answers p @ additional_answers q"
    by (simp_all add: combined_def)
  from ih lc bins c a show ?case by simp
qed

lemma foldl_merge_step_others:
  assumes "name \<notin> set bs"
  shows "foldl (merge_step name us) p bs = foldl combined p (map (\<lambda>a. the (map_of us a)) bs)"
  using assms by (induction bs arbitrary: p) (auto simp: merge_step_def)

text \<open>
  C5: one line of the alias file, on a registry with distinct keys whose aggregates all
  have \<open>n\<close> answer groups. Let \<open>merged\<close> be the aliases of the line that are keys of
  the registry, in the order of the line (a repeated alias counts once, where it first
  stands).
  \<^item> When the name is not a key, the line prints the warning and the registry is as
    before.
  \<^item> When it is a key with the object \<open>primary\<close>, the loop returns, nothing is printed,
    the object at the end is \<open>primary\<close> with the merged aliases combined into it one
    after the other in that order, and the registry at the end is the one before
    without the keys of the line's aliases, with the object at the end under the name.
  \<^item> When moreover the name is not among its own aliases, it is still a key, and every
    answer group, the additional answers and the credits of its object are those of
    \<open>primary\<close> followed by those of the merged aliases, in that order.
\<close>

theorem alias_line_merges:
  assumes "distinct (map fst universities)"
    and "\<forall>uni \<in> snd ` set universities. length (answers uni) = n"
  shows
   "(map_of universities name = None \<longrightarrow>
       alias_line universities (name, aliases) =
         Inr ([''[warn] alias primary missing: '' @ name], universities)) \<and>
    (\<forall>primary. map_of universities name = Some primary \<longrightarrow>
       (\<exists>primary'.
          merge_aliases name aliases (primary, universities) =
            Inr (primary',
                 with_primary name primary' [(k, v) \<leftarrow> universities. k \<notin> set aliases]) \<and>
          alias_line universities (name, aliases) =
            Inr ([], with_primary name primary' [(k, v) \<leftarrow> universities. k \<notin> set aliases]) \<and>
          primary' =
            foldl (merge_step name universities) primary
              [a \<leftarrow> rev (remdups (rev aliases)). a \<in> fst ` set universities] \<and>
          (name \<notin> set aliases \<longrightarrow>
             map_of (with_primary name primary' [(k, v) \<leftarrow> universities. k \<notin> set aliases])
               name = Some primary' \<and>
             length (answers primary') = n \<and>
             (\<forall>i < n.
                group_answers (answers primary' ! i) =
                  group_answers (answers primary ! i) @
                  concat (map (\<lambda>a. group_answers (answers (the (map_of universities a)) ! i))
                    [a \<leftarrow> rev (remdups (rev aliases)). a \<in> fst ` set universities])) \<and>
             additional_answers primary' =
               additional_answers primary @
               concat (map (\<lambda>a. additional_answers (the (map_of universities a)))
                 [a \<leftarrow> rev (remdups (rev aliases)). a \<in> fst ` set universities]) \<and>
             credits primary' =
               credits primary @
               concat (map (\<lambda>a. credits (the (map_of universities a)))
                 [a \<leftarrow> rev (remdups (rev aliases)). a \<in> fst ` set universities]))))"
proof (intro conjI allI impI)
  assume "map_of universities name = None"
  then show "alias_line universities (name, aliases) =
         Inr ([''[warn] alias primary missing: '' @ name], universities)"
    by (simp add: alias_line_def)
next
  fix primary
  assume m: "map_of universities name = Some primary"
  then have mem: "(name, primary) \<in> set universities" by (rule map_of_SomeD)
  with assms(2) have lp: "length (answers primary) = n" by force
  let ?M = "[a \<leftarrow> rev (remdups (rev aliases)). a \<in> fst ` set universities]"
  let ?P = "foldl (merge_step name universities) primary ?M"
  let ?R = "with_primary name ?P [(k, v) \<leftarrow> universities. k \<notin> set aliases]"
  have al: "\<forall>u \<in> snd ` set universities. length (answers u) = length (answers primary)"
    using assms(2) lp by simp
  have loop: "merge_aliases name aliases (primary, universities) = Inr (?P, ?R)"
    using merge_aliases_closed_form [OF assms(1) al, of name aliases] m
    by (simp add: merged_aliases_eq)
  then have line: "alias_line universities (name, aliases) = Inr ([], ?R)"
    by (simp add: alias_line_def m)
  have rest: "map_of ?R name = Some ?P \<and>
             length (answers ?P) = n \<and>
             (\<forall>i < n.
                group_answers (answers ?P ! i) =
                  group_answers (answers primary ! i) @
                  concat (map (\<lambda>a. group_answers (answers (the (map_of universities a)) ! i)) ?M)) \<and>
             additional_answers ?P =
               additional_answers primary @
               concat (map (\<lambda>a. additional_answers (the (map_of universities a))) ?M) \<and>
             credits ?P =
               credits primary @ concat (map (\<lambda>a. credits (the (map_of universities a))) ?M)"
    if nin: "name \<notin> set aliases"
  proof -
    from mem nin have "name \<in> fst ` set [(k, v) \<leftarrow> universities. k \<notin> set aliases]"
      by force
    then have 1: "map_of ?R name = Some ?P" by (rule map_of_with_primary_same)
    have sub: "set ?M \<subseteq> set aliases" by auto
    with nin have "name \<notin> set ?M" by blast
    then have P: "?P = foldl combined primary (map (\<lambda>a. the (map_of universities a)) ?M)"
      by (rule foldl_merge_step_others)
    have "\<forall>q \<in> set (map (\<lambda>a. the (map_of universities a)) ?M).
            length (answers q) = length (answers primary)"
    proof
      fix q
      assume "q \<in> set (map (\<lambda>a. the (map_of universities a)) ?M)"
      then obtain a where a: "a \<in> fst ` set universities" and q: "q = the (map_of universities a)"
        by auto
      from a obtain u where "(a, u) \<in> set universities" by auto
      with assms(1) have "map_of universities a = Some u" "u \<in> snd ` set universities"
        by (auto intro: map_of_is_SomeI simp: image_iff) force
      with q al show "length (answers q) = length (answers primary)" by auto
    qed
    from foldl_combined_content [OF this] P lp 1 show ?thesis
      by (simp add: o_def)
  qed
  show "\<exists>primary'.
          merge_aliases name aliases (primary, universities) =
            Inr (primary',
                 with_primary name primary' [(k, v) \<leftarrow> universities. k \<notin> set aliases]) \<and>
          alias_line universities (name, aliases) =
            Inr ([], with_primary name primary' [(k, v) \<leftarrow> universities. k \<notin> set aliases]) \<and>
          primary' =
            foldl (merge_step name universities) primary
              [a \<leftarrow> rev (remdups (rev aliases)). a \<in> fst ` set universities] \<and>
          (name \<notin> set aliases \<longrightarrow>
             map_of (with_primary name primary' [(k, v) \<leftarrow> universities. k \<notin> set aliases])
               name = Some primary' \<and>
             length (answers primary') = n \<and>
             (\<forall>i < n.
                group_answers (answers primary' ! i) =
                  group_answers (answers primary ! i) @
                  concat (map (\<lambda>a. group_answers (answers (the (map_of universities a)) ! i))
                    [a \<leftarrow> rev (remdups (rev aliases)). a \<in> fst ` set universities])) \<and>
             additional_answers primary' =
               additional_answers primary @
               concat (map (\<lambda>a. additional_answers (the (map_of universities a)))
                 [a \<leftarrow> rev (remdups (rev aliases)). a \<in> fst ` set universities]) \<and>
             credits primary' =
               credits primary @
               concat (map (\<lambda>a. credits (the (map_of universities a)))
                 [a \<leftarrow> rev (remdups (rev aliases)). a \<in> fst ` set universities]))"
    using loop line rest by (intro exI [of _ ?P]) blast
qed

text \<open>
  A registry with the keys \<open>X\<close>, \<open>Y\<close> and \<open>Z\<close>, one answer group each. The line for
  \<open>Q\<close> prints the warning and changes nothing. The line for \<open>X\<close> with the aliases \<open>Z\<close>,
  \<open>W\<close>, \<open>Y\<close> and \<open>Z\<close> again leaves the key \<open>X\<close> only, with the content of \<open>X\<close>, then
  \<open>Z\<close>, then \<open>Y\<close>.
\<close>

theorem alias_line_merges_witness:
  "alias_line
     [(''X'', \<lparr>answers = [AnswerGroup [\<lparr>answer_id = 1, content = ''x''\<rparr>]],
               additional_answers = [], credits = [\<lparr>answer_id = 1, content = ''cx''\<rparr>]\<rparr>),
      (''Y'', \<lparr>answers = [AnswerGroup [\<lparr>answer_id = 2, content = ''y''\<rparr>]],
               additional_answers = [\<lparr>answer_id = 2, content = ''ay''\<rparr>],
               credits = [\<lparr>answer_id = 2, content = ''cy''\<rparr>]\<rparr>),
      (''Z'', \<lparr>answers = [AnswerGroup [\<lparr>answer_id = 3, content = ''z''\<rparr>]],
               additional_answers = [], credits = [\<lparr>answer_id = 3, content = ''cz''\<rparr>]\<rparr>)]
     (''Q'', [''Y''])
   = Inr ([''[warn] alias primary missing: Q''],
     [(''X'', \<lparr>answers = [AnswerGroup [\<lparr>answer_id = 1, content = ''x''\<rparr>]],
               additional_answers = [], credits = [\<lparr>answer_id = 1, content = ''cx''\<rparr>]\<rparr>),
      (''Y'', \<lparr>answers = [AnswerGroup [\<lparr>answer_id = 2, content = ''y''\<rparr>]],
               additional_answers = [\<lparr>answer_id = 2, content = ''ay''\<rparr>],
               credits = [\<lparr>answer_id = 2, content = ''cy''\<rparr>]\<rparr>),
      (''Z'', \<lparr>answers = [AnswerGroup [\<lparr>answer_id = 3, content = ''z''\<rparr>]],
               additional_answers = [], credits = [\<lparr>answer_id = 3, content = ''cz''\<rparr>]\<rparr>)]) \<and>
   alias_line
     [(''X'', \<lparr>answers = [AnswerGroup [\<lparr>answer_id = 1, content = ''x''\<rparr>]],
               additional_answers = [], credits = [\<lparr>answer_id = 1, content = ''cx''\<rparr>]\<rparr>),
      (''Y'', \<lparr>answers = [AnswerGroup [\<lparr>answer_id = 2, content = ''y''\<rparr>]],
               additional_answers = [\<lparr>answer_id = 2, content = ''ay''\<rparr>],
               credits = [\<lparr>answer_id = 2, content = ''cy''\<rparr>]\<rparr>),
      (''Z'', \<lparr>answers = [AnswerGroup [\<lparr>answer_id = 3, content = ''z''\<rparr>]],
               additional_answers = [], credits = [\<lparr>answer_id = 3, content = ''cz''\<rparr>]\<rparr>)]
     (''X'', [''Z'', ''W'', ''Y'', ''Z''])
   = Inr ([],
     [(''X'', \<lparr>answers = [AnswerGroup [\<lparr>answer_id = 1, content = ''x''\<rparr>,
                                        \<lparr>answer_id = 3, content = ''z''\<rparr>,
                                        \<lparr>answer_id = 2, content = ''y''\<rparr>]],
               additional_answers = [\<lparr>answer_id = 2, content = ''ay''\<rparr>],
               credits = [\<lparr>answer_id = 1, content = ''cx''\<rparr>,
                          \<lparr>answer_id = 3, content = ''cz''\<rparr>,
                          \<lparr>answer_id = 2, content = ''cy''\<rparr>]\<rparr>)])"
proof -
  let ?x = "\<lparr>answers = [AnswerGroup [\<lparr>answer_id = 1, content = ''x''\<rparr>]],
               additional_answers = [], credits = [\<lparr>answer_id = 1, content = ''cx''\<rparr>]\<rparr>"
  let ?y = "\<lparr>answers = [AnswerGroup [\<lparr>answer_id = 2, content = ''y''\<rparr>]],
               additional_answers = [\<lparr>answer_id = 2, content = ''ay''\<rparr>],
               credits = [\<lparr>answer_id = 2, content = ''cy''\<rparr>]\<rparr>"
  let ?z = "\<lparr>answers = [AnswerGroup [\<lparr>answer_id = 3, content = ''z''\<rparr>]],
               additional_answers = [], credits = [\<lparr>answer_id = 3, content = ''cz''\<rparr>]\<rparr>"
  let ?U = "[(''X'', ?x), (''Y'', ?y), (''Z'', ?z)]"
  have d: "distinct (map fst ?U)" by simp
  have al: "\<forall>uni \<in> snd ` set ?U. length (answers uni) = 1" by simp
  note t1 = alias_line_merges [OF d al, of "''Q''" "[''Y'']"]
  note t2 = alias_line_merges [OF d al, of "''X''" "[''Z'', ''W'', ''Y'', ''Z'']"]
  from t1 have 1: "alias_line ?U (''Q'', [''Y'']) = Inr ([''[warn] alias primary missing: Q''], ?U)"
    by simp
  from t2 have 2: "alias_line ?U (''X'', [''Z'', ''W'', ''Y'', ''Z'']) =
      Inr ([], with_primary ''X''
                 (foldl (merge_step ''X'' ?U) ?x
                    [a \<leftarrow> rev (remdups (rev [''Z'', ''W'', ''Y'', ''Z''])). a \<in> fst ` set ?U])
                 [(k, v) \<leftarrow> ?U. k \<notin> set [''Z'', ''W'', ''Y'', ''Z'']])"
    by simp
  have 3: "with_primary ''X''
             (foldl (merge_step ''X'' ?U) ?x
                [a \<leftarrow> rev (remdups (rev [''Z'', ''W'', ''Y'', ''Z''])). a \<in> fst ` set ?U])
             [(k, v) \<leftarrow> ?U. k \<notin> set [''Z'', ''W'', ''Y'', ''Z'']] =
           [(''X'', \<lparr>answers = [AnswerGroup [\<lparr>answer_id = 1, content = ''x''\<rparr>,
                                        \<lparr>answer_id = 3, content = ''z''\<rparr>,
                                        \<lparr>answer_id = 2, content = ''y''\<rparr>]],
               additional_answers = [\<lparr>answer_id = 2, content = ''ay''\<rparr>],
               credits = [\<lparr>answer_id = 1, content = ''cx''\<rparr>,
                          \<lparr>answer_id = 3, content = ''cz''\<rparr>,
                          \<lparr>answer_id = 2, content = ''cy''\<rparr>]\<rparr>)]"
    by (simp add: with_primary_def merge_step_def combined_def group_extend_def)
  from 1 2 3 show ?thesis by (simp only:)
qed

section \<open>Properties of the worker pool\<close>

text \<open>
  C9: the size of the worker pool is \<open>min(32, max(1, cores * 4))\<close>, with 1 for the
  number of cores when \<open>os.cpu_count()\<close> returns \<open>None\<close>, and it is always between 1 and
  32. (\<open>os.cpu_count()\<close> returns \<open>None\<close> or a positive number, never 0.)
\<close>

theorem max_workers_bounds:
  "max_workers None = min 32 (max 1 (1 * 4)) \<and>
   (n \<noteq> 0 \<longrightarrow> max_workers (Some n) = min 32 (max 1 (n * 4))) \<and>
   1 \<le> max_workers c \<and> max_workers c \<le> 32"
  by (simp add: max_workers_def logical_cores_def)

theorem max_workers_bounds_witness:
  "max_workers None = 4 \<and> max_workers (Some 2) = 8 \<and> max_workers (Some 16) = 32 \<and>
   1 \<le> max_workers (Some 16) \<and> max_workers (Some 16) \<le> 32"
  using max_workers_bounds [of 2 "Some 16"] max_workers_bounds [of 16 "Some 16"]
  by simp

section \<open>Properties of the partition by date\<close>







end
